theory Spec2Isabelle
  imports Main "HOL-Library.Word" "HOL-Library.Multiset" "HOL-Library.List_Lexorder"
    "HOL-Library.Sublist"
begin

unbundle bit_operations_syntax

section \<open>Parallel Super Scalar String Sample-Sort: keys and constants\<close>

text \<open>
  The sorter of \<^verbatim>\<open>bingmann-parallel_sample_sort.hpp\<close> works on 64-bit keys
  (\<^verbatim>\<open>typedef uint64_t key_type\<close>) fetched from the strings at the current depth.
  Sizes and indices are \<^verbatim>\<open>size_t\<close>; they are modelled as \<open>nat\<close>, and every
  subtraction of the source is shown below to stay within range on the inputs the
  theorems speak about.
\<close>

type_synonym key_type = "64 word"

definition MAXPROCS :: nat where
  "MAXPROCS = 2 * 64 + 1"

definition g_smallsort_threshold :: nat where
  "g_smallsort_threshold = 1024 * 1024"

definition g_inssort_threshold :: nat where
  "g_inssort_threshold = 32"

section \<open>Multikey quicksort: pivot selection\<close>

text \<open>
  \<^verbatim>\<open>SmallsortJob::med3(A, i, j, k)\<close>: index of the median of \<open>A[i], A[j], A[k]\<close>,
  with the source's order of tests.
\<close>

definition med3 :: "key_type list \<Rightarrow> nat \<Rightarrow> nat \<Rightarrow> nat \<Rightarrow> nat" where
  "med3 A i j k =
     (if A ! i = A ! j then i
      else if A ! k = A ! i \<or> A ! k = A ! j then k
      else if A ! i < A ! j then
        (if A ! j < A ! k then j else if A ! i < A ! k then k else i)
      else
        (if A ! j > A ! k then j else if A ! i < A ! k then i else k))"

text \<open>
  The pivot index computed at the start of \<^verbatim>\<open>MKQSStep::MKQSStep\<close>
  (\<^verbatim>\<open>// select median of 9\<close>), for a cache of \<open>n\<close> keys.
\<close>

definition mkqs_pivot_index :: "key_type list \<Rightarrow> nat \<Rightarrow> nat" where
  "mkqs_pivot_index cache n =
     med3 cache
       (med3 cache 0 (n div 8) (n div 4))
       (med3 cache (n div 2 - n div 8) (n div 2) (n div 2 + n div 8))
       (med3 cache (n - 1 - n div 4) (n - 1 - n div 8) (n - 3))"

text \<open>The median of three values, as a specification: the middle one after sorting.\<close>

definition median3 :: "key_type \<Rightarrow> key_type \<Rightarrow> key_type \<Rightarrow> key_type" where
  "median3 a b c = sort [a, b, c] ! 1"

lemma median3_cases:
  "median3 a b c =
     (if a \<le> b then (if b \<le> c then b else if a \<le> c then c else a)
      else (if a \<le> c then a else if b \<le> c then c else b))"
  by (auto simp: median3_def)

lemma med3_median3: "A ! med3 A i j k = median3 (A ! i) (A ! j) (A ! k)"
  unfolding med3_def median3_cases by (auto simp: not_less not_le)

lemma med3_index: "med3 A i j k \<in> {i, j, k}"
  by (simp add: med3_def)

section \<open>Strings and keys\<close>

text \<open>
  A string is the byte buffer a \<^verbatim>\<open>unsigned char*\<close> points to; its logical content
  ends before the first zero byte (or at the end of the list, which stands for the
  terminator).
\<close>

type_synonym str = "8 word list"

definition str_content :: "str \<Rightarrow> 8 word list" where
  "str_content s = takeWhile (\<lambda>c. c \<noteq> 0) s"

text \<open>
  Modelled from the spec: \<^verbatim>\<open>StringSet::get_uint64\<close> lives in
  \<^verbatim>\<open>tools/stringtools.hpp\<close>, which is not part of the sources at hand. The spec
  (section 3, String): fetch up to 8 bytes starting at offset \<open>d\<close>, zero-padded on short
  strings, returned as a big-endian unsigned 64-bit value.
\<close>

definition key_bytes :: "str \<Rightarrow> nat \<Rightarrow> 8 word list" where
  "key_bytes s d =
     (let t = take 8 (drop d (str_content s)) in t @ replicate (8 - length t) 0)"

definition pack_key :: "8 word list \<Rightarrow> key_type" where
  "pack_key bs = foldl (\<lambda>k b. push_bit 8 k OR ucast b) 0 bs"

definition get_uint64 :: "str \<Rightarrow> nat \<Rightarrow> key_type" where
  "get_uint64 s d = pack_key (key_bytes s d)"

text \<open>
  Modelled from the spec: \<^verbatim>\<open>count_high_zero_bits\<close> and
  \<^verbatim>\<open>count_low_zero_bits\<close> also come from \<^verbatim>\<open>tools/stringtools.hpp\<close>. The spec
  (section 3, Key) fixes what the two callers compute from them: the number of leading
  zero bytes of \<open>a XOR b\<close>, at most 8, and 8 minus the number of trailing zero bytes;
  so the count of zero bits of the word 0 is 64.
\<close>

definition count_high_zero_bits :: "key_type \<Rightarrow> nat" where
  "count_high_zero_bits w = length (takeWhile (\<lambda>i. \<not> bit w i) (rev [0..<64]))"

definition count_low_zero_bits :: "key_type \<Rightarrow> nat" where
  "count_low_zero_bits w = length (takeWhile (\<lambda>i. \<not> bit w i) [0..<64])"

text \<open>\<^verbatim>\<open>lcpKeyType\<close>, \<^verbatim>\<open>lcpKeyDepth\<close> and \<^verbatim>\<open>getCharAtDepth\<close> of the source.\<close>

definition lcpKeyType :: "key_type \<Rightarrow> key_type \<Rightarrow> nat" where
  "lcpKeyType a b = count_high_zero_bits (a XOR b) div 8"

definition lcpKeyDepth :: "key_type \<Rightarrow> nat" where
  "lcpKeyDepth a = 8 - count_low_zero_bits a div 8"

text \<open>
  The shift count \<^verbatim>\<open>8 * (sizeof(key_type) - 1 - d)\<close> is only defined for \<open>d \<le> 7\<close>;
  for larger \<open>d\<close> the C expression shifts by 64 bits or more, which the model
  answers with 0. The callers below pass \<open>d < 8\<close>.
\<close>

definition getCharAtDepth :: "key_type \<Rightarrow> nat \<Rightarrow> 8 word" where
  "getCharAtDepth a d = (if d \<le> 7 then ucast (drop_bit (8 * (7 - d)) a) else 0)"

section \<open>Multikey quicksort: the ternary partition of \<^verbatim>\<open>MKQSStep\<close>\<close>

definition swap_at :: "'a list \<Rightarrow> nat \<Rightarrow> nat \<Rightarrow> 'a list" where
  "swap_at xs i j = xs[i := xs ! j, j := xs ! i]"

text \<open>\<^verbatim>\<open>std::swap_ranges(first1, first1 + k, first2)\<close> on one array.\<close>

fun swap_ranges :: "'a list \<Rightarrow> nat \<Rightarrow> nat \<Rightarrow> nat \<Rightarrow> 'a list" where
  "swap_ranges xs a b 0 = xs"
| "swap_ranges xs a b (Suc k) = swap_ranges (swap_at xs a b) (Suc a) (Suc b) k"

text \<open>
  The local variables of the partition loop: the string array and the key cache, which
  are permuted in lockstep, the four indices
  \<^verbatim>\<open>0 [pivot] 1 [===] leq [<<<] llt [???] rgt [>>>] req [===] n-1\<close>
  and the running \<^verbatim>\<open>max_lt\<close> and \<^verbatim>\<open>min_gt\<close>. The indices are
  \<^verbatim>\<open>size_t\<close>; \<open>wrapped\<close> records that \<^verbatim>\<open>--rgt\<close> was reached with
  \<open>rgt = 0\<close>, where the unsigned index would wrap around and leave the array.
\<close>

record pstate =
  strset :: "str list"
  cache :: "key_type list"
  leq :: nat
  llt :: nat
  rgt :: nat
  req :: nat
  max_lt :: key_type
  min_gt :: key_type
  wrapped :: bool

text \<open>First inner loop: scan from the left until a key greater than the pivot.\<close>

function scan_left :: "key_type \<Rightarrow> pstate \<Rightarrow> pstate" where
  "scan_left pivot s =
     (if llt s \<le> rgt s then
        (let c = cache s ! llt s in
         if c > pivot then s\<lparr>min_gt := min (min_gt s) c\<rparr>
         else if c = pivot then
           scan_left pivot
             (s\<lparr>strset := swap_at (strset s) (leq s) (llt s),
                cache := swap_at (cache s) (leq s) (llt s),
                leq := leq s + 1, llt := llt s + 1\<rparr>)
         else
           scan_left pivot (s\<lparr>max_lt := max (max_lt s) c, llt := llt s + 1\<rparr>))
      else s)"
  by pat_completeness auto
termination
  by (relation "measure (\<lambda>(p, s). rgt s + 1 - llt s)") auto

text \<open>Second inner loop: scan from the right until a key smaller than the pivot.\<close>

function scan_right :: "key_type \<Rightarrow> pstate \<Rightarrow> pstate" where
  "scan_right pivot s =
     (if llt s \<le> rgt s then
        (let c = cache s ! rgt s in
         if c < pivot then s\<lparr>max_lt := max (max_lt s) c\<rparr>
         else if rgt s = 0 then s\<lparr>wrapped := True\<rparr>
         else if c = pivot then
           scan_right pivot
             (s\<lparr>strset := swap_at (strset s) (req s) (rgt s),
                cache := swap_at (cache s) (req s) (rgt s),
                req := req s - 1, rgt := rgt s - 1\<rparr>)
         else
           scan_right pivot (s\<lparr>min_gt := min (min_gt s) c, rgt := rgt s - 1\<rparr>))
      else s)"
  by pat_completeness auto
termination
  by (relation "measure (\<lambda>(p, s). rgt s)") auto

declare scan_left.simps [simp del] scan_right.simps [simp del]

lemma scan_left_frame:
  "rgt (scan_left p s) = rgt s \<and> req (scan_left p s) = req s
   \<and> llt s \<le> llt (scan_left p s) \<and> wrapped (scan_left p s) = wrapped s"
proof (induction p s rule: scan_left.induct)
  case (1 pivot s)
  show ?case
    using "1.IH" by (subst (1 2 3 4) scan_left.simps) (auto simp: Let_def)
qed

lemma scan_right_frame:
  "llt (scan_right p s) = llt s \<and> leq (scan_right p s) = leq s
   \<and> rgt (scan_right p s) \<le> rgt s"
proof (induction p s rule: scan_right.induct)
  case (1 pivot s)
  show ?case
    using "1.IH" by (subst (1 2 3) scan_right.simps) (auto simp: Let_def)
qed

text \<open>
  The outer \<^verbatim>\<open>while (true)\<close> loop: both scans, then either stop
  (\<^verbatim>\<open>if (llt > rgt) break\<close>) or exchange the two keys that stopped the scans.
  The model also stops once an index has wrapped; \<open>partition_inv\<close> below shows that
  this never happens when the loop starts as the constructor starts it.
\<close>

function partition_loop :: "key_type \<Rightarrow> pstate \<Rightarrow> pstate" where
  "partition_loop pivot s =
     (let s2 = scan_right pivot (scan_left pivot s) in
      if llt s2 > rgt s2 \<or> wrapped s2 then s2
      else partition_loop pivot
             (s2\<lparr>strset := swap_at (strset s2) (llt s2) (rgt s2),
                 cache := swap_at (cache s2) (llt s2) (rgt s2),
                 llt := llt s2 + 1, rgt := rgt s2 - 1\<rparr>))"
  by pat_completeness auto
termination
proof (relation "measure (\<lambda>(p, s). rgt s + 1 - llt s)", goal_cases)
  case 1
  show ?case by simp
next
  case (2 pivot s s2)
  have "llt s \<le> llt s2" "rgt s2 \<le> rgt s"
    using scan_left_frame [of pivot s] scan_right_frame [of pivot "scan_left pivot s"] 2(1)
    by auto
  with 2 show ?case by auto
qed

declare partition_loop.simps [simp del]

text \<open>
  The fields of \<^verbatim>\<open>class MKQSStep\<close> (with \<^verbatim>\<open>PS5_CALC_LCP_MKQS == 1\<close>). The
  two arrays the constructor permutes in place, the active side of \<^verbatim>\<open>strptr\<close> and
  the key cache, are returned in \<open>ms_strset\<close> and \<open>ms_cache\<close>; \<open>ms_pivot\<close> is the
  constructor's local \<^verbatim>\<open>pivot\<close>. \<^verbatim>\<open>lcp_lt\<close>, \<^verbatim>\<open>dchar_eq\<close> (and
  \<^verbatim>\<open>lcp_gt\<close>, \<^verbatim>\<open>dchar_gt\<close>) stay uninitialised in the source when
  \<open>num_lt = 0\<close> (\<open>num_gt = 0\<close>); the model writes 0 there, and \<open>calculate_lcp\<close> does
  not read them in that case.
\<close>

record mkqs_step =
  ms_strset :: "str list"
  ms_cache :: "key_type list"
  ms_pivot :: key_type
  num_lt :: nat
  num_eq :: nat
  num_gt :: nat
  ms_depth :: nat
  ms_idx :: nat
  eq_recurse :: "8 word"
  dchar_eq :: "8 word"
  dchar_gt :: "8 word"
  lcp_lt :: nat
  lcp_eq :: nat
  lcp_gt :: nat
  ms_wrapped :: bool

text \<open>
  The cache the constructor works on: refilled from the strings when
  \<^verbatim>\<open>CacheDirty\<close>, otherwise the caller's slice.
\<close>

definition mkqs_fill_cache :: "str list \<Rightarrow> key_type list \<Rightarrow> nat \<Rightarrow> bool \<Rightarrow> key_type list" where
  "mkqs_fill_cache strs cache0 depth CacheDirty =
     (if CacheDirty then map (\<lambda>s. get_uint64 s depth) strs else cache0)"

definition MKQSStep :: "str list \<Rightarrow> key_type list \<Rightarrow> nat \<Rightarrow> bool \<Rightarrow> mkqs_step" where
  "MKQSStep strs cache0 depth CacheDirty =
     (let n = length strs;
          c1 = mkqs_fill_cache strs cache0 depth CacheDirty;
          p = mkqs_pivot_index c1 n;
          strs1 = swap_at strs 0 p;
          c2 = swap_at c1 0 p;
          pivot = c2 ! 0;
          s = partition_loop pivot
                \<lparr>strset = strs1, cache = c2, leq = 1, llt = 1, rgt = n - 1, req = n - 1,
                 max_lt = 0, min_gt = - 1, wrapped = False\<rparr>;
          num_leq = leq s;
          num_req = n - 1 - req s;
          neq = num_leq + num_req;
          nlt = llt s - leq s;
          ngt = req s - rgt s;
          size1 = min num_leq nlt;
          strs2 = swap_ranges (strset s) 0 (llt s - size1) size1;
          c3 = swap_ranges (cache s) 0 (llt s - size1) size1;
          size2 = min num_req ngt;
          strs3 = swap_ranges strs2 (llt s) (n - size2) size2;
          c4 = swap_ranges c3 (llt s) (n - size2) size2
      in \<lparr>ms_strset = strs3, ms_cache = c4, ms_pivot = pivot,
          num_lt = nlt, num_eq = neq, num_gt = ngt,
          ms_depth = depth, ms_idx = 0,
          eq_recurse = ucast (pivot AND 0xFF),
          dchar_eq = (if nlt > 0 then getCharAtDepth pivot (lcpKeyType (max_lt s) pivot) else 0),
          dchar_gt = (if ngt > 0 then getCharAtDepth (min_gt s) (lcpKeyType pivot (min_gt s)) else 0),
          lcp_lt = (if nlt > 0 then lcpKeyType (max_lt s) pivot else 0),
          lcp_eq = lcpKeyDepth pivot,
          lcp_gt = (if ngt > 0 then lcpKeyType pivot (min_gt s) else 0),
          ms_wrapped = wrapped s\<rparr>)"

subsection \<open>Invariant of the partition loop\<close>

text \<open>
  The index invariant of the loop for an array of \<open>n\<close> keys. With it every index the
  loop reads or swaps is below \<open>n\<close>, no subtraction in the loop or after it goes below
  zero, and no index wraps.
\<close>

definition partition_inv :: "nat \<Rightarrow> pstate \<Rightarrow> bool" where
  "partition_inv n s \<longleftrightarrow>
     length (cache s) = n \<and> length (strset s) = n \<and> 1 \<le> leq s \<and> leq s \<le> llt s
     \<and> llt s \<le> rgt s + 1 \<and> rgt s \<le> req s \<and> req s < n \<and> \<not> wrapped s"

lemma scan_left_inv:
  "partition_inv n s \<Longrightarrow>
     partition_inv n (scan_left p s) \<and>
     (llt (scan_left p s) \<le> rgt (scan_left p s) \<longrightarrow>
        p < cache (scan_left p s) ! llt (scan_left p s))"
proof (induction p s rule: scan_left.induct)
  case (1 pivot s)
  show ?case
    using "1.IH" "1.prems"
    by (subst (1 2 3 4 5) scan_left.simps) (auto simp: Let_def partition_inv_def swap_at_def)
qed

lemma scan_right_inv:
  "partition_inv n s \<Longrightarrow> (llt s \<le> rgt s \<longrightarrow> p < cache s ! llt s) \<Longrightarrow>
     partition_inv n (scan_right p s) \<and>
     (llt (scan_right p s) \<le> rgt (scan_right p s) \<longrightarrow>
        cache (scan_right p s) ! rgt (scan_right p s) < p
        \<and> llt (scan_right p s) < rgt (scan_right p s))"
proof (induction p s rule: scan_right.induct)
  case (1 pivot s)
  let ?c = "cache s ! rgt s"
  show ?case
  proof (cases "llt s \<le> rgt s")
    case False
    then have "scan_right pivot s = s" by (subst scan_right.simps) simp
    with False "1.prems" show ?thesis by simp
  next
    case le: True
    from "1.prems" le have pos: "0 < rgt s" by (simp add: partition_inv_def)
    show ?thesis
    proof (cases "?c < pivot")
      case True
      then have eq: "scan_right pivot s = s\<lparr>max_lt := max (max_lt s) ?c\<rparr>"
        using le by (subst scan_right.simps) (simp add: Let_def)
      have "llt s \<noteq> rgt s" using True "1.prems"(2) le by auto
      with le True "1.prems" show ?thesis unfolding eq by (auto simp: partition_inv_def)
    next
      case nlt: False
      show ?thesis
      proof (cases "?c = pivot")
        case True
        let ?s' = "s\<lparr>strset := swap_at (strset s) (req s) (rgt s),
                cache := swap_at (cache s) (req s) (rgt s),
                req := req s - 1, rgt := rgt s - 1\<rparr>"
        have eq: "scan_right pivot s = scan_right pivot ?s'"
          using le nlt pos True by (subst scan_right.simps) (simp add: Let_def)
        have ne: "llt s < rgt s"
          using True "1.prems"(2) le by (cases "llt s = rgt s") auto
        have inv': "partition_inv n ?s'"
          using "1.prems"(1) ne by (auto simp: partition_inv_def swap_at_def)
        have hyp': "llt ?s' \<le> rgt ?s' \<longrightarrow> pivot < cache ?s' ! llt ?s'"
          using "1.prems" ne by (auto simp: partition_inv_def swap_at_def)
        from "1.IH"(1) [OF le refl nlt _ True inv' hyp'] pos
        show ?thesis unfolding eq by simp
      next
        case False
        let ?s' = "s\<lparr>min_gt := min (min_gt s) ?c, rgt := rgt s - 1\<rparr>"
        have eq: "scan_right pivot s = scan_right pivot ?s'"
          using le nlt pos False by (subst scan_right.simps) (simp add: Let_def)
        have inv': "partition_inv n ?s'"
          using "1.prems"(1) le by (auto simp: partition_inv_def)
        have hyp': "llt ?s' \<le> rgt ?s' \<longrightarrow> pivot < cache ?s' ! llt ?s'"
          using "1.prems" by auto
        from "1.IH"(2) [OF le refl nlt _ False inv' hyp'] pos
        show ?thesis unfolding eq by simp
      qed
    qed
  qed
qed

lemma partition_loop_inv:
  "partition_inv n s \<Longrightarrow>
     partition_inv n (partition_loop p s)
     \<and> llt (partition_loop p s) = rgt (partition_loop p s) + 1"
proof (induction p s rule: partition_loop.induct)
  case (1 pivot s)
  let ?s1 = "scan_left pivot s"
  let ?s2 = "scan_right pivot ?s1"
  have i1: "partition_inv n ?s1" "llt ?s1 \<le> rgt ?s1 \<longrightarrow> pivot < cache ?s1 ! llt ?s1"
    using scan_left_inv [OF "1.prems", of pivot] by auto
  have i2: "partition_inv n ?s2"
    "llt ?s2 \<le> rgt ?s2 \<longrightarrow> cache ?s2 ! rgt ?s2 < pivot \<and> llt ?s2 < rgt ?s2"
    using scan_right_inv [OF i1] by auto
  show ?case
  proof (cases "llt ?s2 > rgt ?s2 \<or> wrapped ?s2")
    case True
    then have eq: "partition_loop pivot s = ?s2"
      by (subst partition_loop.simps) (simp add: Let_def)
    from i2 True show ?thesis unfolding eq by (auto simp: partition_inv_def)
  next
    case False
    let ?s3 = "?s2\<lparr>strset := swap_at (strset ?s2) (llt ?s2) (rgt ?s2),
                 cache := swap_at (cache ?s2) (llt ?s2) (rgt ?s2),
                 llt := llt ?s2 + 1, rgt := rgt ?s2 - 1\<rparr>"
    from False have eq: "partition_loop pivot s = partition_loop pivot ?s3"
      by (subst partition_loop.simps) (simp add: Let_def)
    have "partition_inv n ?s3" using i2 False by (auto simp: partition_inv_def swap_at_def)
    from "1.IH" [OF refl False this] show ?thesis unfolding eq by simp
  qed
qed

lemma mkqs_fill_cache_length:
  "CacheDirty \<or> length cache0 = length strs \<Longrightarrow>
     length (mkqs_fill_cache strs cache0 depth CacheDirty) = length strs"
  by (auto simp: mkqs_fill_cache_def)

lemma mkqs_pivot_index_less: "3 \<le> n \<Longrightarrow> mkqs_pivot_index c n < n"
proof -
  assume n: "3 \<le> n"
  have r: "n div 8 < n" "n div 4 < n" "n div 2 - n div 8 < n" "n div 2 < n"
    "n div 2 + n div 8 < n" "n - 1 - n div 4 < n" "n - 1 - n div 8 < n" "n - 3 < n"
    using n by arith+
  have a: "med3 c 0 (n div 8) (n div 4) < n"
    using med3_index [of c 0 "n div 8" "n div 4"] n r by auto
  have b: "med3 c (n div 2 - n div 8) (n div 2) (n div 2 + n div 8) < n"
    using med3_index [of c "n div 2 - n div 8" "n div 2" "n div 2 + n div 8"] r by auto
  have d: "med3 c (n - 1 - n div 4) (n - 1 - n div 8) (n - 3) < n"
    using med3_index [of c "n - 1 - n div 4" "n - 1 - n div 8" "n - 3"] r by auto
  show ?thesis
    unfolding mkqs_pivot_index_def
    using med3_index [of c "med3 c 0 (n div 8) (n div 4)"
        "med3 c (n div 2 - n div 8) (n div 2) (n div 2 + n div 8)"
        "med3 c (n - 1 - n div 4) (n - 1 - n div 8) (n - 3)"] a b d
    by auto
qed

lemma low_byte_mask: "(ucast (k AND 0xFF :: key_type) :: 8 word) = ucast k"
proof -
  have m: "(0xFF :: key_type) = mask 8" by (simp add: mask_eq_exp_minus_1)
  show ?thesis unfolding m by (rule bit_word_eqI) (auto simp: bit_simps)
qed

lemma swap_at_length [simp]: "length (swap_at xs i j) = length xs"
  by (simp add: swap_at_def)

lemma swap_at_0: "p < length xs \<Longrightarrow> swap_at xs 0 p ! 0 = xs ! p"
proof -
  assume p: "p < length xs"
  then have "0 < length xs" by (cases xs) auto
  then show ?thesis by (cases "p = 0") (simp_all add: swap_at_def)
qed

text \<open>The state in which the constructor enters the loop satisfies the invariant.\<close>

lemma partition_inv_init:
  "1 \<le> n \<Longrightarrow> length c = n \<Longrightarrow> length strs = n \<Longrightarrow>
     partition_inv n
       \<lparr>strset = strs, cache = c, leq = 1, llt = 1, rgt = n - 1,
        req = n - 1, max_lt = mx, min_gt = mn, wrapped = False\<rparr>"
  by (auto simp: partition_inv_def)

section \<open>Claims about the multikey quicksort step\<close>

text \<open>
  C8. In an MKQS step over \<open>n\<close> strings the pivot is the median of three medians of
  three, taken from the cached keys at the positions \<open>{0, n/8, n/4}\<close>,
  \<open>{n/2 - n/8, n/2, n/2 + n/8}\<close> and \<open>{n-1-n/4, n-1-n/8, n-3}\<close>. The source builds
  a step only for \<open>n \<ge> g_inssort_threshold = 32\<close>; the statement needs \<open>n \<ge> 3\<close>, so
  that \<open>n - 3\<close> is an index.
\<close>

theorem mkqs_pivot_median_of_medians:
  assumes "3 \<le> length strs" and "CacheDirty \<or> length cache0 = length strs"
  shows "ms_pivot (MKQSStep strs cache0 depth CacheDirty) =
     (let n = length strs; c = mkqs_fill_cache strs cache0 depth CacheDirty in
      median3 (median3 (c ! 0) (c ! (n div 8)) (c ! (n div 4)))
              (median3 (c ! (n div 2 - n div 8)) (c ! (n div 2)) (c ! (n div 2 + n div 8)))
              (median3 (c ! (n - 1 - n div 4)) (c ! (n - 1 - n div 8)) (c ! (n - 3))))"
proof -
  let ?n = "length strs"
  let ?c = "mkqs_fill_cache strs cache0 depth CacheDirty"
  have len: "length ?c = ?n" using assms(2) by (rule mkqs_fill_cache_length)
  have p: "mkqs_pivot_index ?c ?n < length ?c"
    using mkqs_pivot_index_less [OF assms(1)] len by simp
  have "ms_pivot (MKQSStep strs cache0 depth CacheDirty) = ?c ! mkqs_pivot_index ?c ?n"
    by (simp add: MKQSStep_def Let_def swap_at_0 [OF p])
  also have "\<dots> = median3 (median3 (?c ! 0) (?c ! (?n div 8)) (?c ! (?n div 4)))
              (median3 (?c ! (?n div 2 - ?n div 8)) (?c ! (?n div 2)) (?c ! (?n div 2 + ?n div 8)))
              (median3 (?c ! (?n - 1 - ?n div 4)) (?c ! (?n - 1 - ?n div 8)) (?c ! (?n - 3)))"
    by (simp only: mkqs_pivot_index_def med3_median3)
  finally show ?thesis by (simp only: Let_def)
qed

theorem mkqs_pivot_median_of_medians_witness:
  "ms_pivot (MKQSStep [[101], [98], [104], [97], [100], [103], [99], [102], [105]] [] 0 True)
     = get_uint64 [100] 0"
proof -
  let ?strs = "[[101], [98], [104], [97], [100], [103], [99], [102], [105 :: 8 word]]"
  have h1: "3 \<le> length ?strs" by simp
  have h2: "True \<or> length ([] :: key_type list) = length ?strs" by simp
  have c: "mkqs_fill_cache ?strs [] 0 True =
      [0x6500000000000000, 0x6200000000000000, 0x6800000000000000, 0x6100000000000000,
       0x6400000000000000, 0x6700000000000000, 0x6300000000000000, 0x6600000000000000,
       0x6900000000000000]"
    by code_simp
  have k: "get_uint64 [100] 0 = 0x6400000000000000" by code_simp
  show ?thesis
    unfolding mkqs_pivot_median_of_medians [OF h1 h2] c k
    by (simp add: median3_cases)
qed

text \<open>
  C10. After the ternary partition of the MKQSStep constructor over \<open>n\<close> strings the
  three areas partition the range, \<open>num_lt + num_eq + num_gt = n\<close>; the equal area is
  not empty; and \<open>eq_recurse\<close> is set exactly when the low byte of the pivot key is not
  zero. No index of the loop wraps.
\<close>

theorem mkqs_step_areas:
  assumes "3 \<le> length strs" and "CacheDirty \<or> length cache0 = length strs"
  shows "num_lt (MKQSStep strs cache0 depth CacheDirty)
           + num_eq (MKQSStep strs cache0 depth CacheDirty)
           + num_gt (MKQSStep strs cache0 depth CacheDirty) = length strs
         \<and> 1 \<le> num_eq (MKQSStep strs cache0 depth CacheDirty)
         \<and> (eq_recurse (MKQSStep strs cache0 depth CacheDirty) \<noteq> 0
              \<longleftrightarrow> (ucast (ms_pivot (MKQSStep strs cache0 depth CacheDirty)) :: 8 word) \<noteq> 0)
         \<and> \<not> ms_wrapped (MKQSStep strs cache0 depth CacheDirty)"
proof -
  let ?n = "length strs"
  let ?c = "mkqs_fill_cache strs cache0 depth CacheDirty"
  let ?p = "mkqs_pivot_index ?c ?n"
  let ?cs = "swap_at ?c 0 ?p"
  let ?init = "\<lparr>strset = swap_at strs 0 ?p, cache = ?cs, leq = 1, llt = 1, rgt = ?n - 1,
        req = ?n - 1, max_lt = 0, min_gt = - 1, wrapped = False\<rparr>"
  let ?fin = "partition_loop (?cs ! 0) ?init"
  have len: "length ?c = ?n" using assms(2) by (rule mkqs_fill_cache_length)
  have "partition_inv ?n ?init"
    by (rule partition_inv_init) (use assms(1) len in auto)
  from partition_loop_inv [OF this, of "?cs ! 0"]
  have inv: "partition_inv ?n ?fin" and fin: "llt ?fin = rgt ?fin + 1" by auto
  define s where "s = ?fin"
  have b: "1 \<le> leq s" "leq s \<le> llt s" "rgt s \<le> req s" "req s < ?n" "\<not> wrapped s"
    "llt s = rgt s + 1"
    using inv fin unfolding s_def by (simp_all add: partition_inv_def)
  have sum: "llt s - leq s + (leq s + (?n - 1 - req s)) + (req s - rgt s) = ?n"
    and eq: "1 \<le> leq s + (?n - 1 - req s)"
    using b by linarith+
  have ms: "num_lt (MKQSStep strs cache0 depth CacheDirty) = llt s - leq s"
    "num_eq (MKQSStep strs cache0 depth CacheDirty) = leq s + (?n - 1 - req s)"
    "num_gt (MKQSStep strs cache0 depth CacheDirty) = req s - rgt s"
    "ms_wrapped (MKQSStep strs cache0 depth CacheDirty) = wrapped s"
    "eq_recurse (MKQSStep strs cache0 depth CacheDirty)
       = ucast (ms_pivot (MKQSStep strs cache0 depth CacheDirty) AND 0xFF)"
    unfolding s_def by (simp_all add: MKQSStep_def Let_def)
  show ?thesis
    unfolding ms low_byte_mask using sum eq b(5) by simp
qed

theorem mkqs_step_areas_witness:
  "num_lt (MKQSStep [[98], [97], [99], [97], [98, 1]] [] 0 True) = 3
   \<and> num_eq (MKQSStep [[98], [97], [99], [97], [98, 1]] [] 0 True) = 1
   \<and> num_gt (MKQSStep [[98], [97], [99], [97], [98, 1]] [] 0 True) = 1
   \<and> eq_recurse (MKQSStep [[98], [97], [99], [97], [98, 1]] [] 0 True) = 0"
proof -
  let ?strs = "[[98], [97], [99], [97], [98, 1 :: 8 word]]"
  have h1: "3 \<le> length ?strs" by simp
  have h2: "True \<or> length ([] :: key_type list) = length ?strs" by simp
  have a: "num_lt (MKQSStep ?strs [] 0 True) = 3" by code_simp
  have g: "num_gt (MKQSStep ?strs [] 0 True) = 1" by code_simp
  have p: "ms_pivot (MKQSStep ?strs [] 0 True) = 0x6201000000000000" by code_simp
  from mkqs_step_areas [OF h1 h2, of 0] a g p show ?thesis by simp
qed

section \<open>The parallel sample sort step: partition into parts\<close>

text \<open>
  \<^verbatim>\<open>class Context\<close>: the size of the whole input and the number of threads. (The job
  queue and the statistics counters play no part in what follows.)
\<close>

record Context =
  totalsize :: nat
  threadnum :: nat

text \<open>
  \<^verbatim>\<open>Context::sequential_threshold\<close> with \<^verbatim>\<open>PS5_ENABLE_RESTSIZE false\<close>. The
  division traps in C when \<open>threadnum = 0\<close>; the theorems assume \<open>0 < threadnum\<close>.
\<close>

definition sequential_threshold :: "Context \<Rightarrow> nat" where
  "sequential_threshold ctx = max g_smallsort_threshold (totalsize ctx div threadnum ctx)"

text \<open>A \<^verbatim>\<open>size_t\<close> result: unsigned 64-bit arithmetic wraps.\<close>

definition size_t :: "nat \<Rightarrow> nat" where
  "size_t x = x mod 2 ^ 64"

text \<open>
  The constructor \<^verbatim>\<open>SampleSortStep::SampleSortStep\<close> over a range of \<open>n\<close> strings
  sets \<^verbatim>\<open>parts\<close> and \<^verbatim>\<open>psize\<close>.
\<close>

definition SampleSortStep_parts :: "Context \<Rightarrow> nat \<Rightarrow> nat" where
  "SampleSortStep_parts ctx n =
     (let parts = size_t (n div sequential_threshold ctx * 2);
          parts = (if parts = 0 then 1 else parts);
          parts = (if parts > MAXPROCS then MAXPROCS else parts)
      in parts)"

definition SampleSortStep_psize :: "Context \<Rightarrow> nat \<Rightarrow> nat" where
  "SampleSortStep_psize ctx n =
     (let parts = SampleSortStep_parts ctx n in size_t (n + parts - 1) div parts)"

text \<open>
  The range \<^verbatim>\<open>[strB, strE)\<close> of part \<open>p\<close>, as \<^verbatim>\<open>count\<close> and \<^verbatim>\<open>distribute\<close>
  compute it, and its size \<^verbatim>\<open>strE - strB\<close>.
\<close>

definition part_range :: "nat \<Rightarrow> nat \<Rightarrow> nat \<Rightarrow> nat \<times> nat" where
  "part_range n psize p =
     (let strB = size_t (p * psize);
          strE = min (size_t ((p + 1) * psize)) n;
          strE = (if strE < strB then strB else strE)
      in (strB, strE))"

definition part_size :: "nat \<Rightarrow> nat \<Rightarrow> nat \<Rightarrow> nat" where
  "part_size n psize p = snd (part_range n psize p) - fst (part_range n psize p)"

text \<open>The formulas of the specification.\<close>

definition clamp :: "nat \<Rightarrow> nat \<Rightarrow> nat \<Rightarrow> nat" where
  "clamp lo hi x = max lo (min hi x)"

definition ceil_div :: "nat \<Rightarrow> nat \<Rightarrow> nat" where
  "ceil_div a b = (a + b - 1) div b"

definition spec_parts :: "Context \<Rightarrow> nat \<Rightarrow> nat" where
  "spec_parts ctx n = clamp 1 MAXPROCS (ceil_div n (sequential_threshold ctx) * 2)"

lemma sequential_threshold_ge: "g_smallsort_threshold \<le> sequential_threshold ctx"
  by (simp add: sequential_threshold_def)

lemma parts_eq_clamp:
  assumes "n < 2 ^ 63"
  shows "SampleSortStep_parts ctx n = clamp 1 MAXPROCS (n div sequential_threshold ctx * 2)"
proof -
  have n: "n < 9223372036854775808" using assms by simp
  have "n div sequential_threshold ctx * 2 < 18446744073709551616"
    using div_le_dividend [of n "sequential_threshold ctx"] n by linarith
  then have "size_t (n div sequential_threshold ctx * 2) = n div sequential_threshold ctx * 2"
    by (simp add: size_t_def)
  then show ?thesis
    by (auto simp: SampleSortStep_parts_def clamp_def MAXPROCS_def Let_def)
qed

lemma parts_bounds:
  assumes "n < 2 ^ 63"
  shows "1 \<le> SampleSortStep_parts ctx n" "SampleSortStep_parts ctx n \<le> MAXPROCS"
  unfolding parts_eq_clamp [OF assms] by (simp_all add: clamp_def MAXPROCS_def)

lemma parts_square:
  assumes "n < 2 ^ 63"
  shows "(SampleSortStep_parts ctx n - 1) * (SampleSortStep_parts ctx n - 1) \<le> n"
proof (cases "n div sequential_threshold ctx = 0")
  case True
  then have "SampleSortStep_parts ctx n = 1"
    unfolding parts_eq_clamp [OF assms] by (simp add: clamp_def MAXPROCS_def)
  then show ?thesis by simp
next
  case False
  have pos: "0 < sequential_threshold ctx"
    using sequential_threshold_ge [of ctx] by (simp add: g_smallsort_threshold_def)
  from False have "sequential_threshold ctx \<le> n"
    using pos by (simp add: div_eq_0_iff not_less)
  then have n: "1048576 \<le> n"
    using sequential_threshold_ge [of ctx] by (simp add: g_smallsort_threshold_def)
  have "SampleSortStep_parts ctx n - 1 \<le> 128"
    using parts_bounds(2) [OF assms, of ctx] by (simp add: MAXPROCS_def)
  from mult_le_mono [OF this this] n show ?thesis by simp
qed

text \<open>If \<open>(k - 1)\<^sup>2 \<le> n\<close>, the first \<open>k - 1\<close> parts of size \<open>\<lceil>n / k\<rceil>\<close> fit into \<open>n\<close>.\<close>

lemma ceil_parts_fit:
  assumes k: "1 \<le> (k::nat)" and sq: "(k - 1) * (k - 1) \<le> (n::nat)"
  shows "(k - 1) * ((n + k - 1) div k) \<le> n"
proof -
  let ?q = "(n + k - 1) div k"
  have "(k - 1) * k div k \<le> ?q"
  proof (rule div_le_mono)
    have "(k - 1) * k = (k - 1) * (k - 1) + (k - 1)"
      using k by (cases k) simp_all
    also have "\<dots> \<le> n + (k - 1)" using sq by simp
    finally show "(k - 1) * k \<le> n + k - 1" using k by simp
  qed
  then have q: "k - 1 \<le> ?q" using k by simp
  have "?q * k \<le> n + k - 1" by (rule div_times_less_eq_dividend)
  moreover have "?q * k = (k - 1) * ?q + ?q"
    using k by (cases k) simp_all
  ultimately show ?thesis using q by linarith
qed



section \<open>Claim about the partition into parts\<close>

lemma psize_eq_ceil:
  assumes "n < 2 ^ 63"
  shows "SampleSortStep_psize ctx n = ceil_div n (SampleSortStep_parts ctx n)"
proof -
  have n: "n < 9223372036854775808" using assms by simp
  have "SampleSortStep_parts ctx n \<le> 129"
    using parts_bounds(2) [OF assms, of ctx] by (simp add: MAXPROCS_def)
  with n have "n + SampleSortStep_parts ctx n - 1 < 18446744073709551616" by linarith
  then have "size_t (n + SampleSortStep_parts ctx n - 1) = n + SampleSortStep_parts ctx n - 1"
    by (simp add: size_t_def)
  then show ?thesis by (simp add: SampleSortStep_psize_def ceil_div_def Let_def)
qed

lemma part_size_full:
  assumes n: "n < 2 ^ 63" and fit: "(p + 1) * psize \<le> n"
  shows "part_size n psize p = psize"
proof -
  have n': "n < 18446744073709551616" using n by simp
  have le: "p * psize \<le> (p + 1) * psize" by simp
  have e: "size_t ((p + 1) * psize) = (p + 1) * psize"
    using fit n' by (simp add: size_t_def)
  have b: "size_t (p * psize) = p * psize"
    using le fit n' by (simp add: size_t_def)
  have "part_range n psize p = (p * psize, (p + 1) * psize)"
    unfolding part_range_def e b Let_def using fit le by (simp add: min_def)
  then show ?thesis by (simp add: part_size_def)
qed

text \<open>
  C6, as the source has it. The number of parts is
  \<open>clamp(\<lfloor>n / seqThresh\<rfloor> \<sqdot> 2, 1, MAXPROCS)\<close>, with the integer division of
  \<^verbatim>\<open>strptr.size() / ctx.sequential_threshold() * 2\<close> (rounding down, not up);
  \<open>psize = \<lceil>n / parts\<rceil>\<close>; and every part except the last has exactly \<open>psize\<close>
  strings.
\<close>

theorem sample_sort_step_parts:
  assumes "0 < threadnum ctx" and "n < 2 ^ 63"
  shows "SampleSortStep_parts ctx n = clamp 1 MAXPROCS (n div sequential_threshold ctx * 2)
     \<and> SampleSortStep_psize ctx n = ceil_div n (SampleSortStep_parts ctx n)
     \<and> (\<forall>p. p + 1 < SampleSortStep_parts ctx n \<longrightarrow>
           part_size n (SampleSortStep_psize ctx n) p = SampleSortStep_psize ctx n)"
proof (intro conjI allI impI)
  show "SampleSortStep_parts ctx n = clamp 1 MAXPROCS (n div sequential_threshold ctx * 2)"
    using assms(2) by (rule parts_eq_clamp)
  show "SampleSortStep_psize ctx n = ceil_div n (SampleSortStep_parts ctx n)"
    using assms(2) by (rule psize_eq_ceil)
next
  fix p
  let ?k = "SampleSortStep_parts ctx n"
  let ?q = "SampleSortStep_psize ctx n"
  assume p: "p + 1 < ?k"
  have q: "?q = (n + ?k - 1) div ?k"
    using psize_eq_ceil [OF assms(2), of ctx] by (simp add: ceil_div_def)
  have "(p + 1) * ?q \<le> (?k - 1) * ?q"
    using p by (intro mult_le_mono1) simp
  also have "\<dots> \<le> n"
    unfolding q using parts_bounds(1) [OF assms(2)] parts_square [OF assms(2)]
    by (rule ceil_parts_fit)
  finally show "part_size n ?q p = ?q"
    using assms(2) by (intro part_size_full)
qed

theorem sample_sort_step_parts_witness:
  "SampleSortStep_parts \<lparr>totalsize = 1048577, threadnum = 2\<rparr> 1048577 = 2
   \<and> SampleSortStep_psize \<lparr>totalsize = 1048577, threadnum = 2\<rparr> 1048577 = 524289
   \<and> part_size 1048577 524289 0 = 524289"
proof -
  let ?ctx = "\<lparr>totalsize = 1048577, threadnum = 2\<rparr>"
  have h1: "0 < threadnum ?ctx" by simp
  have h2: "(1048577 :: nat) < 2 ^ 63" by simp
  have t: "sequential_threshold ?ctx = 1048576"
    by (simp add: sequential_threshold_def g_smallsort_threshold_def)
  note T = sample_sort_step_parts [OF h1 h2]
  have k: "SampleSortStep_parts ?ctx 1048577 = 2"
    using T [THEN conjunct1] by (simp add: t clamp_def MAXPROCS_def)
  have q: "SampleSortStep_psize ?ctx 1048577 = ceil_div 1048577 (SampleSortStep_parts ?ctx 1048577)"
    by (rule T [THEN conjunct2, THEN conjunct1])
  have a: "\<forall>p. p + 1 < SampleSortStep_parts ?ctx 1048577 \<longrightarrow>
           part_size 1048577 (SampleSortStep_psize ?ctx 1048577) p
             = SampleSortStep_psize ?ctx 1048577"
    by (rule T [THEN conjunct2, THEN conjunct2])
  have q': "SampleSortStep_psize ?ctx 1048577 = 524289"
    unfolding q k by (simp add: ceil_div_def)
  from a [rule_format, of 0] show ?thesis unfolding k q' by simp
qed

text \<open>
  The formula of the specification rounds \<open>n / seqThresh\<close> up. For 1048577 strings and
  two threads the threshold is 1048576, \<^verbatim>\<open>Enqueue\<close> creates a SampleSortStep, the
  source computes 2 parts and the formula gives 4.
\<close>

theorem sample_sort_step_parts_counterexample:
  "sequential_threshold \<lparr>totalsize = 1048577, threadnum = 2\<rparr> < 1048577
   \<and> SampleSortStep_parts \<lparr>totalsize = 1048577, threadnum = 2\<rparr> 1048577 = 2
   \<and> spec_parts \<lparr>totalsize = 1048577, threadnum = 2\<rparr> 1048577 = 4"
  by (simp add: sequential_threshold_def g_smallsort_threshold_def SampleSortStep_parts_def
      spec_parts_def clamp_def ceil_div_def MAXPROCS_def size_t_def)

section \<open>String arrays, shadow pointers and the LCP array\<close>

text \<open>
  Modelled from the spec: the string pointer classes \<^verbatim>\<open>StringShadowPtr\<close>,
  \<^verbatim>\<open>StringShadowLcpPtr\<close>, \<^verbatim>\<open>StringShadowOutPtr\<close>, \<^verbatim>\<open>StringShadowLcpOutPtr\<close> and
  \<^verbatim>\<open>StringShadowLcpCacheOutPtr\<close> are declared in \<^verbatim>\<open>tools/stringtools.hpp\<close>, which is
  not part of the sources at hand. The spec (section 3, ShadowBundle) describes them: a
  pair (active, shadow) of equal length over two equal-capacity buffers, plus optionally
  an LCP array and a cached-character array aligned with the output; \<open>flip(off, len)\<close>
  gives the sub-bundle with the roles of active and shadow exchanged, \<open>sub(off, len)\<close>
  the sub-bundle with the roles kept, \<open>copy_back()\<close> makes the range reside in the
  caller-visible output, \<open>set_lcp(i, v)\<close> and \<open>set_cache(i, c)\<close> write position \<open>i\<close>
  of the range, \<open>fill_lcp(d)\<close> writes \<open>d\<close> to every LCP position of the range except
  index 0.
\<close>

datatype ptr_kind =
  StringShadowPtr | StringShadowLcpPtr | StringShadowOutPtr | StringShadowLcpOutPtr
  | StringShadowLcpCacheOutPtr

fun with_lcp :: "ptr_kind \<Rightarrow> bool" where
  "with_lcp StringShadowPtr = False"
| "with_lcp StringShadowLcpPtr = True"
| "with_lcp StringShadowOutPtr = False"
| "with_lcp StringShadowLcpOutPtr = True"
| "with_lcp StringShadowLcpCacheOutPtr = True"

fun with_cache :: "ptr_kind \<Rightarrow> bool" where
  "with_cache StringShadowLcpCacheOutPtr = True"
| "with_cache _ = False"

text \<open>
  For the \<open>Out\<close> pointers the entry points pass the caller's output array as the shadow
  array (\<^verbatim>\<open>StringOutPtr strptr(strset, output, output)\<close>); for the others the output is
  the string set itself.
\<close>

fun is_out :: "ptr_kind \<Rightarrow> bool" where
  "is_out StringShadowOutPtr = True"
| "is_out StringShadowLcpOutPtr = True"
| "is_out StringShadowLcpCacheOutPtr = True"
| "is_out _ = False"

text \<open>
  The memory the sorter works on: \<open>arr0\<close> is the array the root pointer has as its
  active side (the caller's string set), \<open>arr1\<close> the array it has as its shadow side.
\<close>

record store =
  arr0 :: "str list"
  arr1 :: "str list"
  lcparray :: "nat list"
  cachearr :: "8 word list"

text \<open>
  A string pointer: a range of the two arrays, the side that is active now
  (\<open>sp_act1\<close>: the active side is \<open>arr1\<close>) and the \<^verbatim>\<open>flipped()\<close> flag.
\<close>

record strptr =
  sp_off :: nat
  sp_size :: nat
  sp_act1 :: bool
  sp_flipped :: bool

definition slice :: "'a list \<Rightarrow> nat \<Rightarrow> nat \<Rightarrow> 'a list" where
  "slice xs off n = take n (drop off xs)"

definition put :: "'a list \<Rightarrow> nat \<Rightarrow> 'a list \<Rightarrow> 'a list" where
  "put xs off ys = take off xs @ ys @ drop (off + length ys) xs"

definition sp_active :: "store \<Rightarrow> strptr \<Rightarrow> str list" where
  "sp_active st b = slice (if sp_act1 b then arr1 st else arr0 st) (sp_off b) (sp_size b)"

definition sp_shadow :: "store \<Rightarrow> strptr \<Rightarrow> str list" where
  "sp_shadow st b = slice (if sp_act1 b then arr0 st else arr1 st) (sp_off b) (sp_size b)"

definition sp_output :: "ptr_kind \<Rightarrow> store \<Rightarrow> strptr \<Rightarrow> str list" where
  "sp_output k st b = slice (if is_out k then arr1 st else arr0 st) (sp_off b) (sp_size b)"

definition put_active :: "store \<Rightarrow> strptr \<Rightarrow> str list \<Rightarrow> store" where
  "put_active st b ys =
     (if sp_act1 b then st\<lparr>arr1 := put (arr1 st) (sp_off b) ys\<rparr>
      else st\<lparr>arr0 := put (arr0 st) (sp_off b) ys\<rparr>)"

definition put_shadow :: "store \<Rightarrow> strptr \<Rightarrow> str list \<Rightarrow> store" where
  "put_shadow st b ys =
     (if sp_act1 b then st\<lparr>arr0 := put (arr0 st) (sp_off b) ys\<rparr>
      else st\<lparr>arr1 := put (arr1 st) (sp_off b) ys\<rparr>)"

definition put_output :: "ptr_kind \<Rightarrow> store \<Rightarrow> strptr \<Rightarrow> str list \<Rightarrow> store" where
  "put_output k st b ys =
     (if is_out k then st\<lparr>arr1 := put (arr1 st) (sp_off b) ys\<rparr>
      else st\<lparr>arr0 := put (arr0 st) (sp_off b) ys\<rparr>)"

definition flip :: "strptr \<Rightarrow> nat \<Rightarrow> nat \<Rightarrow> strptr" where
  "flip b off n =
     \<lparr>sp_off = sp_off b + off, sp_size = n, sp_act1 = (\<not> sp_act1 b),
      sp_flipped = (\<not> sp_flipped b)\<rparr>"

definition sub :: "strptr \<Rightarrow> nat \<Rightarrow> nat \<Rightarrow> strptr" where
  "sub b off n = b\<lparr>sp_off := sp_off b + off, sp_size := n\<rparr>"

text \<open>
  \<open>copy_back\<close>: if the active side is not the output array, move the range there; the
  pointer returned has the output as its active side and is not flipped.
\<close>

definition copy_back :: "ptr_kind \<Rightarrow> store \<Rightarrow> strptr \<Rightarrow> store \<times> strptr" where
  "copy_back k st b =
     ((if sp_act1 b \<noteq> is_out k then put_output k st b (sp_active st b) else st),
      b\<lparr>sp_act1 := is_out k, sp_flipped := False\<rparr>)"

definition set_lcp :: "ptr_kind \<Rightarrow> store \<Rightarrow> strptr \<Rightarrow> nat \<Rightarrow> nat \<Rightarrow> store" where
  "set_lcp k st b i v =
     (if with_lcp k then st\<lparr>lcparray := (lcparray st)[sp_off b + i := v]\<rparr> else st)"

definition set_cache :: "ptr_kind \<Rightarrow> store \<Rightarrow> strptr \<Rightarrow> nat \<Rightarrow> 8 word \<Rightarrow> store" where
  "set_cache k st b i c =
     (if with_cache k then st\<lparr>cachearr := (cachearr st)[sp_off b + i := c]\<rparr> else st)"

definition fill_lcp :: "ptr_kind \<Rightarrow> store \<Rightarrow> strptr \<Rightarrow> nat \<Rightarrow> store" where
  "fill_lcp k st b v = fold (\<lambda>i s. set_lcp k s b i v) [1..<sp_size b] st"

section \<open>The parallel sample sort step after distribution\<close>

text \<open>
  A sub-bundle and the depth at which it is handed to \<^verbatim>\<open>Enqueue\<close>.
\<close>

datatype job = Job strptr nat

text \<open>
  The members of \<^verbatim>\<open>class SampleSortStep\<close> that \<^verbatim>\<open>distribute_finished\<close> reads: the
  string pointer, the depth, the splitters of the classifier in bucket order
  (\<^verbatim>\<open>classifier.get_splitter(i)\<close>), the LCP bytes of the splitters and the bucket
  boundaries \<^verbatim>\<open>bkt[0]\<close>. \<open>numsplitters\<close> is a constant of the classifier template, which
  is not part of the sources at hand; it is carried as a field.
\<close>

record sstep =
  ss_strptr :: strptr
  ss_depth :: nat
  ss_numsplitters :: nat
  ss_splitter :: "key_type list"
  ss_splitter_lcp :: "8 word list"
  ss_bkt :: "nat list"

definition bktnum :: "sstep \<Rightarrow> nat" where
  "bktnum s = 2 * ss_numsplitters s + 1"

text \<open>\<^verbatim>\<open>size_t\<close> subtraction wraps around.\<close>

definition sub_size_t :: "nat \<Rightarrow> nat \<Rightarrow> nat" where
  "sub_size_t a b = (if b \<le> a then a - b else a + 2 ^ 64 - b)"

text \<open>
  The body of the loop of \<^verbatim>\<open>distribute_finished\<close> for an even bucket \<open>i\<close>
  (less-than bucket) and for an odd bucket (equal bucket). \<open>d\<close> is the depth of the
  child: \<^verbatim>\<open>depth + (splitter_lcp[i / 2] & 0x7F)\<close> in the loop, \<^verbatim>\<open>depth\<close> for the last
  bucket.
\<close>

definition df_even :: "ptr_kind \<Rightarrow> sstep \<Rightarrow> nat \<Rightarrow> nat \<Rightarrow> store \<times> job list \<Rightarrow> store \<times> job list" where
  "df_even k s i d = (\<lambda>(st, jobs).
     (let bktsize = sub_size_t (ss_bkt s ! (i + 1)) (ss_bkt s ! i) in
      if bktsize = 0 then (st, jobs)
      else if bktsize = 1 then (fst (copy_back k st (flip (ss_strptr s) (ss_bkt s ! i) 1)), jobs)
      else (st, jobs @ [Job (flip (ss_strptr s) (ss_bkt s ! i) bktsize) d])))"

definition df_odd :: "ptr_kind \<Rightarrow> sstep \<Rightarrow> nat \<Rightarrow> store \<times> job list \<Rightarrow> store \<times> job list" where
  "df_odd k s i = (\<lambda>(st, jobs).
     (let bktsize = sub_size_t (ss_bkt s ! (i + 1)) (ss_bkt s ! i) in
      if bktsize = 0 then (st, jobs)
      else if bktsize = 1 then (fst (copy_back k st (flip (ss_strptr s) (ss_bkt s ! i) 1)), jobs)
      else if ss_splitter_lcp s ! (i div 2) AND 0x80 \<noteq> 0 then
        (let (st', sp) = copy_back k st (flip (ss_strptr s) (ss_bkt s ! i) bktsize) in
         (fill_lcp k st' sp (ss_depth s + lcpKeyDepth (ss_splitter s ! (i div 2))), jobs))
      else (st, jobs @ [Job (flip (ss_strptr s) (ss_bkt s ! i) bktsize) (ss_depth s + 8)])))"

text \<open>
  One round of the \<^verbatim>\<open>while (i < bktnum - 1)\<close> loop handles the even bucket \<open>i = 2 j\<close>
  and the odd bucket \<open>i + 1\<close>.
\<close>

definition df_round :: "ptr_kind \<Rightarrow> sstep \<Rightarrow> nat \<Rightarrow> store \<times> job list \<Rightarrow> store \<times> job list" where
  "df_round k s j acc =
     df_odd k s (2 * j + 1)
       (df_even k s (2 * j)
          (ss_depth s + unat (ss_splitter_lcp s ! ((2 * j) div 2) AND 0x7F)) acc)"

text \<open>
  \<^verbatim>\<open>SampleSortStep::distribute_finished\<close>: the sentinel \<^verbatim>\<open>bkt[bktnum] = strptr.size()\<close>,
  the loop over the pairs of buckets, and the last bucket. The result is the store and
  the children handed to \<^verbatim>\<open>Enqueue\<close>, in order.
\<close>

definition distribute_finished :: "ptr_kind \<Rightarrow> sstep \<Rightarrow> store \<Rightarrow> store \<times> job list" where
  "distribute_finished k s0 st =
     (let s = s0\<lparr>ss_bkt := (ss_bkt s0)[bktnum s0 := sp_size (ss_strptr s0)]\<rparr>;
          acc = fold (df_round k s) [0..<ss_numsplitters s] (st, [])
      in df_even k s (bktnum s - 1) (ss_depth s) acc)"


subsection \<open>Frame properties of the bundle operations\<close>

lemma length_slice: "off + n \<le> length xs \<Longrightarrow> length (slice xs off n) = n"
  by (simp add: slice_def)

lemma nth_slice: "i < n \<Longrightarrow> off + n \<le> length xs \<Longrightarrow> slice xs off n ! i = xs ! (off + i)"
  by (simp add: slice_def)

lemma length_put: "off + length ys \<le> length xs \<Longrightarrow> length (put xs off ys) = length xs"
  by (simp add: put_def)

lemma nth_put:
  "off + length ys \<le> length xs \<Longrightarrow> p < length xs \<Longrightarrow>
     put xs off ys ! p = (if off \<le> p \<and> p < off + length ys then ys ! (p - off) else xs ! p)"
  by (auto simp: put_def nth_append)

definition out_arr :: "ptr_kind \<Rightarrow> store \<Rightarrow> str list" where
  "out_arr k st = (if is_out k then arr1 st else arr0 st)"

definition other_arr :: "ptr_kind \<Rightarrow> store \<Rightarrow> str list" where
  "other_arr k st = (if is_out k then arr0 st else arr1 st)"

text \<open>
  \<open>only_in k lo hi st st'\<close>: from \<open>st\<close> to \<open>st'\<close> the output array changed at most at
  the positions \<open>lo \<le> p < hi\<close>, the LCP array at most at \<open>lo < p < hi\<close>, and nothing
  else changed.
\<close>

definition only_in :: "ptr_kind \<Rightarrow> nat \<Rightarrow> nat \<Rightarrow> store \<Rightarrow> store \<Rightarrow> bool" where
  "only_in k lo hi st st' \<longleftrightarrow>
     length (out_arr k st') = length (out_arr k st)
     \<and> (\<forall>p. p < length (out_arr k st) \<and> (p < lo \<or> hi \<le> p) \<longrightarrow> out_arr k st' ! p = out_arr k st ! p)
     \<and> other_arr k st' = other_arr k st
     \<and> length (lcparray st') = length (lcparray st)
     \<and> (\<forall>p. p < length (lcparray st) \<and> (p \<le> lo \<or> hi \<le> p) \<longrightarrow> lcparray st' ! p = lcparray st ! p)
     \<and> cachearr st' = cachearr st"

lemma only_in_refl: "only_in k lo hi st st"
  by (simp add: only_in_def)

lemma only_in_trans:
  "only_in k lo hi st st' \<Longrightarrow> only_in k lo hi st' st'' \<Longrightarrow> only_in k lo hi st st''"
  by (auto simp: only_in_def)

lemma only_in_copy_back:
  assumes "sp_off b + sp_size b \<le> length (arr0 st)" "sp_off b + sp_size b \<le> length (arr1 st)"
  shows "only_in k (sp_off b) (sp_off b + sp_size b) st (fst (copy_back k st b))"
  using assms
  by (auto simp: only_in_def copy_back_def put_output_def out_arr_def other_arr_def sp_active_def
      length_put length_slice nth_put)

lemma only_in_set_lcp:
  "0 < i \<Longrightarrow> i < sp_size b \<Longrightarrow> only_in k (sp_off b) (sp_off b + sp_size b) st (set_lcp k st b i v)"
  by (auto simp: only_in_def set_lcp_def out_arr_def other_arr_def nth_list_update)

lemma only_in_fill_lcp_aux:
  "\<forall>i \<in> set is. 0 < i \<and> i < sp_size b \<Longrightarrow>
     only_in k (sp_off b) (sp_off b + sp_size b) st (fold (\<lambda>i s. set_lcp k s b i v) is st)"
proof (induction "is" arbitrary: st)
  case Nil
  show ?case by (simp add: only_in_refl)
next
  case (Cons i "is")
  have "only_in k (sp_off b) (sp_off b + sp_size b) st (set_lcp k st b i v)"
    using Cons.prems by (intro only_in_set_lcp) auto
  moreover have "only_in k (sp_off b) (sp_off b + sp_size b) (set_lcp k st b i v)
      (fold (\<lambda>i s. set_lcp k s b i v) is (set_lcp k st b i v))"
    using Cons.prems by (intro Cons.IH) auto
  ultimately show ?case by (auto intro: only_in_trans)
qed

lemma only_in_fill_lcp:
  "only_in k (sp_off b) (sp_off b + sp_size b) st (fill_lcp k st b v)"
  unfolding fill_lcp_def by (rule only_in_fill_lcp_aux) auto


definition sp_fits :: "store \<Rightarrow> strptr \<Rightarrow> bool" where
  "sp_fits st b \<longleftrightarrow>
     sp_off b + sp_size b \<le> length (arr0 st) \<and> sp_off b + sp_size b \<le> length (arr1 st)
     \<and> sp_off b + sp_size b \<le> length (lcparray st)"

lemma only_in_fits: "only_in k lo hi st st' \<Longrightarrow> sp_fits st b \<Longrightarrow> sp_fits st' b"
  by (cases "is_out k") (auto simp: only_in_def sp_fits_def out_arr_def other_arr_def)

lemma flip_simps [simp]:
  "sp_off (flip b off n) = sp_off b + off" "sp_size (flip b off n) = n"
  "sp_act1 (flip b off n) = (\<not> sp_act1 b)" "sp_flipped (flip b off n) = (\<not> sp_flipped b)"
  by (simp_all add: flip_def)

lemma copy_back_snd [simp]:
  "sp_off (snd (copy_back k st b)) = sp_off b" "sp_size (snd (copy_back k st b)) = sp_size b"
  by (simp_all add: copy_back_def)

lemma slice_put_same: "off + length ys \<le> length xs \<Longrightarrow> slice (put xs off ys) off (length ys) = ys"
  by (simp add: slice_def put_def)

lemma copy_back_output:
  assumes "sp_off b + sp_size b \<le> length (arr0 st)" "sp_off b + sp_size b \<le> length (arr1 st)"
  shows "sp_output k (fst (copy_back k st b)) b = sp_active st b"
proof (cases "sp_act1 b = is_out k")
  case True
  then show ?thesis by (auto simp: copy_back_def sp_output_def sp_active_def)
next
  case False
  have l: "length (sp_active st b) = sp_size b"
    using assms by (simp add: sp_active_def length_slice)
  from False assms show ?thesis
    using slice_put_same [of "sp_off b" "sp_active st b" "arr0 st"]
      slice_put_same [of "sp_off b" "sp_active st b" "arr1 st"]
    by (auto simp: copy_back_def sp_output_def put_output_def l)
qed

lemma lcparray_fold_set_lcp:
  assumes "with_lcp k" "\<forall>i \<in> set is. sp_off b + i < length (lcparray st)"
  shows "lcparray (fold (\<lambda>i s. set_lcp k s b i v) is st) ! (sp_off b + j)
     = (if j \<in> set is then v else lcparray st ! (sp_off b + j))"
  using assms(2)
proof (induction "is" arbitrary: st)
  case Nil
  show ?case by simp
next
  case (Cons i "is")
  let ?st = "set_lcp k st b i v"
  have "\<forall>i \<in> set is. sp_off b + i < length (lcparray ?st)"
    using Cons.prems by (simp add: set_lcp_def)
  from Cons.IH [OF this] Cons.prems assms(1) show ?case
    by (auto simp: set_lcp_def nth_list_update)
qed

lemma fill_lcp_nth:
  assumes "with_lcp k" "sp_off b + sp_size b \<le> length (lcparray st)" "0 < j" "j < sp_size b"
  shows "lcparray (fill_lcp k st b v) ! (sp_off b + j) = v"
proof -
  have "\<forall>i \<in> set [1..<sp_size b]. sp_off b + i < length (lcparray st)"
    using assms(2) by auto
  from lcparray_fold_set_lcp [OF assms(1) this, of v j] assms(3,4) show ?thesis
    by (simp add: fill_lcp_def)
qed

subsection \<open>What one bucket of \<^verbatim>\<open>distribute_finished\<close> changes\<close>

lemma sub_size_t_le: "b \<le> a \<Longrightarrow> sub_size_t a b = a - b"
  by (simp add: sub_size_t_def)

lemma df_even_effect:
  assumes fits: "sp_fits st (ss_strptr s)"
    and le: "ss_bkt s ! m \<le> ss_bkt s ! (m + 1)" "ss_bkt s ! (m + 1) \<le> sp_size (ss_strptr s)"
  shows "\<exists>st' new. df_even k s m d (st, jobs) = (st', jobs @ new)
     \<and> only_in k (sp_off (ss_strptr s) + ss_bkt s ! m) (sp_off (ss_strptr s) + ss_bkt s ! (m + 1)) st st'
     \<and> (\<forall>b dd. Job b dd \<in> set new \<longrightarrow>
          sp_off b = sp_off (ss_strptr s) + ss_bkt s ! m
          \<and> sp_off b + sp_size b = sp_off (ss_strptr s) + ss_bkt s ! (m + 1))"
proof -
  define sz where "sz = ss_bkt s ! (m + 1) - ss_bkt s ! m"
  define lo where "lo = ss_bkt s ! m"
  have hi: "ss_bkt s ! (m + 1) = lo + sz" using le(1) by (simp add: sz_def lo_def)
  have szt: "sub_size_t (lo + sz) lo = sz" by (simp add: sub_size_t_def)
  have eq: "df_even k s m d (st, jobs) =
      (if sz = 0 then (st, jobs)
       else if sz = 1 then (fst (copy_back k st (flip (ss_strptr s) lo 1)), jobs)
       else (st, jobs @ [Job (flip (ss_strptr s) lo sz) d]))"
    unfolding df_even_def hi lo_def [symmetric] szt by (simp add: Let_def)
  have cb: "only_in k (sp_off (ss_strptr s) + lo) (sp_off (ss_strptr s) + lo + sz) st
      (fst (copy_back k st (flip (ss_strptr s) lo sz)))"
    using only_in_copy_back [of "flip (ss_strptr s) lo sz" st k] fits le(2)
    unfolding hi by (simp add: sp_fits_def add.assoc)
  show ?thesis
    unfolding hi lo_def [symmetric] eq
    using cb by (cases "sz = 0"; cases "sz = 1") (auto simp: only_in_refl add.assoc)
qed

lemma df_odd_effect:
  assumes fits: "sp_fits st (ss_strptr s)"
    and le: "ss_bkt s ! m \<le> ss_bkt s ! (m + 1)" "ss_bkt s ! (m + 1) \<le> sp_size (ss_strptr s)"
  shows "\<exists>st' new. df_odd k s m (st, jobs) = (st', jobs @ new)
     \<and> only_in k (sp_off (ss_strptr s) + ss_bkt s ! m) (sp_off (ss_strptr s) + ss_bkt s ! (m + 1)) st st'
     \<and> (\<forall>b dd. Job b dd \<in> set new \<longrightarrow>
          sp_off b = sp_off (ss_strptr s) + ss_bkt s ! m
          \<and> sp_off b + sp_size b = sp_off (ss_strptr s) + ss_bkt s ! (m + 1))"
proof -
  define sz where "sz = ss_bkt s ! (m + 1) - ss_bkt s ! m"
  define lo where "lo = ss_bkt s ! m"
  define bb where "bb = flip (ss_strptr s) lo sz"
  define v where "v = ss_depth s + lcpKeyDepth (ss_splitter s ! (m div 2))"
  have hi: "ss_bkt s ! (m + 1) = lo + sz" using le(1) by (simp add: sz_def lo_def)
  have szt: "sub_size_t (lo + sz) lo = sz" by (simp add: sub_size_t_def)
  have eq: "df_odd k s m (st, jobs) =
      (if sz = 0 then (st, jobs)
       else if sz = 1 then (fst (copy_back k st (flip (ss_strptr s) lo 1)), jobs)
       else if ss_splitter_lcp s ! (m div 2) AND 0x80 \<noteq> 0 then
         (fill_lcp k (fst (copy_back k st bb)) (snd (copy_back k st bb)) v, jobs)
       else (st, jobs @ [Job bb (ss_depth s + 8)]))"
    unfolding df_odd_def hi lo_def [symmetric] szt bb_def v_def
    by (simp add: Let_def split_beta)
  have cb: "only_in k (sp_off (ss_strptr s) + lo) (sp_off (ss_strptr s) + lo + sz) st
      (fst (copy_back k st bb))"
    using only_in_copy_back [of bb st k] fits le(2)
    unfolding hi bb_def by (simp add: sp_fits_def add.assoc)
  have fl: "only_in k (sp_off (ss_strptr s) + lo) (sp_off (ss_strptr s) + lo + sz)
      (fst (copy_back k st bb)) (fill_lcp k (fst (copy_back k st bb)) (snd (copy_back k st bb)) v)"
    using only_in_fill_lcp [of k "snd (copy_back k st bb)" "fst (copy_back k st bb)" v]
    by (simp add: bb_def)
  note tr = only_in_trans [OF cb fl]
  show ?thesis
    unfolding hi lo_def [symmetric] eq
    using cb tr
    by (cases "sz = 0"; cases "sz = 1"; cases "ss_splitter_lcp s ! (m div 2) AND 0x80 \<noteq> 0")
      (auto simp: only_in_refl add.assoc bb_def)
qed


lemma only_in_mono:
  "only_in k lo hi st st' \<Longrightarrow> lo' \<le> lo \<Longrightarrow> hi \<le> hi' \<Longrightarrow> only_in k lo' hi' st st'"
  by (auto simp: only_in_def)

lemma slice_cong:
  assumes "off + n \<le> length xs" "off + n \<le> length ys"
    and "\<And>p. off \<le> p \<Longrightarrow> p < off + n \<Longrightarrow> xs ! p = ys ! p"
  shows "slice xs off n = slice ys off n"
proof (rule nth_equalityI)
  show "length (slice xs off n) = length (slice ys off n)"
    using assms(1,2) by (simp add: length_slice)
  fix i assume "i < length (slice xs off n)"
  then have i: "i < n" using assms(1) by (simp add: length_slice)
  show "slice xs off n ! i = slice ys off n ! i"
    using i assms by (simp add: nth_slice)
qed

lemma only_in_arrays_disjoint:
  assumes o: "only_in k lo hi st st'" and fits: "sp_fits st b"
    and d: "hi \<le> sp_off b \<or> sp_off b + sp_size b \<le> lo"
  shows "slice (arr0 st') (sp_off b) (sp_size b) = slice (arr0 st) (sp_off b) (sp_size b)"
    and "slice (arr1 st') (sp_off b) (sp_size b) = slice (arr1 st) (sp_off b) (sp_size b)"
proof -
  have len: "length (arr0 st') = length (arr0 st)" "length (arr1 st') = length (arr1 st)"
    using o by (cases "is_out k"; simp add: only_in_def out_arr_def other_arr_def)+
  have same: "arr0 st' ! p = arr0 st ! p \<and> arr1 st' ! p = arr1 st ! p"
    if "sp_off b \<le> p" "p < sp_off b + sp_size b" for p
    using o d that fits
    by (cases "is_out k") (auto simp: only_in_def out_arr_def other_arr_def sp_fits_def)
  show "slice (arr0 st') (sp_off b) (sp_size b) = slice (arr0 st) (sp_off b) (sp_size b)"
    using fits len same by (intro slice_cong) (auto simp: sp_fits_def)
  show "slice (arr1 st') (sp_off b) (sp_size b) = slice (arr1 st) (sp_off b) (sp_size b)"
    using fits len same by (intro slice_cong) (auto simp: sp_fits_def)
qed

lemma only_in_active_disjoint:
  "only_in k lo hi st st' \<Longrightarrow> sp_fits st b \<Longrightarrow>
     hi \<le> sp_off b \<or> sp_off b + sp_size b \<le> lo \<Longrightarrow> sp_active st' b = sp_active st b"
  using only_in_arrays_disjoint [of k lo hi st st' b] by (simp add: sp_active_def)

lemma only_in_output_disjoint:
  "only_in k lo hi st st' \<Longrightarrow> sp_fits st b \<Longrightarrow>
     hi \<le> sp_off b \<or> sp_off b + sp_size b \<le> lo \<Longrightarrow> sp_output k st' b = sp_output k st b"
  using only_in_arrays_disjoint [of k lo hi st st' b] by (simp add: sp_output_def)

lemma only_in_lcp_disjoint:
  "only_in k lo hi st st' \<Longrightarrow> sp_fits st b \<Longrightarrow>
     hi \<le> sp_off b \<or> sp_off b + sp_size b \<le> lo \<Longrightarrow> j < sp_size b \<Longrightarrow>
     lcparray st' ! (sp_off b + j) = lcparray st ! (sp_off b + j)"
  by (auto simp: only_in_def sp_fits_def)

text \<open>The table of bucket boundaries after the sentinel has been written.\<close>

definition bkt_ok :: "sstep \<Rightarrow> bool" where
  "bkt_ok s \<longleftrightarrow>
     length (ss_bkt s) = bktnum s + 1 \<and> sorted (ss_bkt s)
     \<and> ss_bkt s ! bktnum s = sp_size (ss_strptr s)"

lemma bkt_ok_mono: "bkt_ok s \<Longrightarrow> a \<le> b \<Longrightarrow> b \<le> bktnum s \<Longrightarrow> ss_bkt s ! a \<le> ss_bkt s ! b"
  by (auto simp: bkt_ok_def intro: sorted_nth_mono)

lemma bkt_ok_le_size: "bkt_ok s \<Longrightarrow> a \<le> bktnum s \<Longrightarrow> ss_bkt s ! a \<le> sp_size (ss_strptr s)"
  using bkt_ok_mono [of s a "bktnum s"] by (simp add: bkt_ok_def)

lemma df_round_effect:
  assumes fits: "sp_fits st (ss_strptr s)" and ok: "bkt_ok s" and j: "j < ss_numsplitters s"
  shows "\<exists>st' new. df_round k s j (st, jobs) = (st', jobs @ new)
     \<and> only_in k (sp_off (ss_strptr s) + ss_bkt s ! (2 * j))
          (sp_off (ss_strptr s) + ss_bkt s ! (2 * j + 2)) st st'
     \<and> (\<forall>b dd. Job b dd \<in> set new \<longrightarrow>
          sp_off (ss_strptr s) + ss_bkt s ! (2 * j) \<le> sp_off b
          \<and> sp_off b + sp_size b \<le> sp_off (ss_strptr s) + ss_bkt s ! (2 * j + 2))"
proof -
  let ?off = "sp_off (ss_strptr s)"
  let ?d = "ss_depth s + unat (ss_splitter_lcp s ! ((2 * j) div 2) AND 0x7F)"
  have b: "2 * j + 2 \<le> bktnum s" using j by (simp add: bktnum_def)
  have m: "ss_bkt s ! (2 * j) \<le> ss_bkt s ! (2 * j + 1)"
    "ss_bkt s ! (2 * j + 1) \<le> ss_bkt s ! (2 * j + 1 + 1)"
    using b by (auto intro!: bkt_ok_mono [OF ok])
  have sz: "ss_bkt s ! (2 * j + 1) \<le> sp_size (ss_strptr s)"
    "ss_bkt s ! (2 * j + 1 + 1) \<le> sp_size (ss_strptr s)"
    using b by (auto intro!: bkt_ok_le_size [OF ok])
  from df_even_effect [OF fits m(1) sz(1), of k ?d jobs]
  obtain st1 new1 where e: "df_even k s (2 * j) ?d (st, jobs) = (st1, jobs @ new1)"
    and o1: "only_in k (?off + ss_bkt s ! (2 * j)) (?off + ss_bkt s ! (2 * j + 1)) st st1"
    and j1: "\<forall>b dd. Job b dd \<in> set new1 \<longrightarrow> sp_off b = ?off + ss_bkt s ! (2 * j)
          \<and> sp_off b + sp_size b = ?off + ss_bkt s ! (2 * j + 1)"
    by blast
  have fits1: "sp_fits st1 (ss_strptr s)" using o1 fits by (rule only_in_fits)
  from df_odd_effect [OF fits1 m(2) sz(2), of k "jobs @ new1"]
  obtain st2 new2 where d: "df_odd k s (2 * j + 1) (st1, jobs @ new1) = (st2, (jobs @ new1) @ new2)"
    and o2: "only_in k (?off + ss_bkt s ! (2 * j + 1)) (?off + ss_bkt s ! (2 * j + 1 + 1)) st1 st2"
    and j2: "\<forall>b dd. Job b dd \<in> set new2 \<longrightarrow> sp_off b = ?off + ss_bkt s ! (2 * j + 1)
          \<and> sp_off b + sp_size b = ?off + ss_bkt s ! (2 * j + 1 + 1)"
    by blast
  have o: "only_in k (?off + ss_bkt s ! (2 * j)) (?off + ss_bkt s ! (2 * j + 2)) st st2"
    using only_in_mono [OF o1, of "?off + ss_bkt s ! (2 * j)" "?off + ss_bkt s ! (2 * j + 2)"]
      only_in_mono [OF o2, of "?off + ss_bkt s ! (2 * j)" "?off + ss_bkt s ! (2 * j + 2)"] m
    by (auto intro: only_in_trans)
  have "df_round k s j (st, jobs) = (st2, jobs @ (new1 @ new2))"
    by (simp only: df_round_def e d append_assoc)
  moreover have "\<forall>b dd. Job b dd \<in> set (new1 @ new2) \<longrightarrow>
          ?off + ss_bkt s ! (2 * j) \<le> sp_off b
          \<and> sp_off b + sp_size b \<le> ?off + ss_bkt s ! (2 * j + 2)"
    using j1 j2 m by fastforce
  ultimately show ?thesis using o by blast
qed

lemma df_rounds_effect:
  assumes ok: "bkt_ok s"
  shows "sp_fits st (ss_strptr s) \<Longrightarrow> a \<le> c \<Longrightarrow> c \<le> ss_numsplitters s \<Longrightarrow>
     \<exists>st' new. fold (df_round k s) [a..<c] (st, jobs) = (st', jobs @ new)
     \<and> only_in k (sp_off (ss_strptr s) + ss_bkt s ! (2 * a))
          (sp_off (ss_strptr s) + ss_bkt s ! (2 * c)) st st'
     \<and> (\<forall>b dd. Job b dd \<in> set new \<longrightarrow>
          sp_off (ss_strptr s) + ss_bkt s ! (2 * a) \<le> sp_off b
          \<and> sp_off b + sp_size b \<le> sp_off (ss_strptr s) + ss_bkt s ! (2 * c))"
proof (induction c)
  case 0
  then show ?case by (simp add: only_in_refl)
next
  case (Suc c)
  let ?off = "sp_off (ss_strptr s)"
  show ?case
  proof (cases "a = Suc c")
    case True
    then show ?thesis by (simp add: only_in_refl)
  next
    case False
    with Suc.prems have ac: "a \<le> c" and c: "c < ss_numsplitters s" by simp_all
    from Suc.IH [OF Suc.prems(1) ac] c
    obtain st1 new1 where f: "fold (df_round k s) [a..<c] (st, jobs) = (st1, jobs @ new1)"
      and o1: "only_in k (?off + ss_bkt s ! (2 * a)) (?off + ss_bkt s ! (2 * c)) st st1"
      and j1: "\<forall>b dd. Job b dd \<in> set new1 \<longrightarrow> ?off + ss_bkt s ! (2 * a) \<le> sp_off b
          \<and> sp_off b + sp_size b \<le> ?off + ss_bkt s ! (2 * c)"
      by auto
    have fits1: "sp_fits st1 (ss_strptr s)" using o1 Suc.prems(1) by (rule only_in_fits)
    from df_round_effect [OF fits1 ok c, of k "jobs @ new1"]
    obtain st2 new2 where r: "df_round k s c (st1, jobs @ new1) = (st2, (jobs @ new1) @ new2)"
      and o2: "only_in k (?off + ss_bkt s ! (2 * c)) (?off + ss_bkt s ! (2 * c + 2)) st1 st2"
      and j2: "\<forall>b dd. Job b dd \<in> set new2 \<longrightarrow> ?off + ss_bkt s ! (2 * c) \<le> sp_off b
          \<and> sp_off b + sp_size b \<le> ?off + ss_bkt s ! (2 * c + 2)"
      by blast
    have m: "ss_bkt s ! (2 * a) \<le> ss_bkt s ! (2 * c)" "ss_bkt s ! (2 * c) \<le> ss_bkt s ! (2 * c + 2)"
      using ac c by (auto intro!: bkt_ok_mono [OF ok] simp: bktnum_def)
    have o: "only_in k (?off + ss_bkt s ! (2 * a)) (?off + ss_bkt s ! (2 * Suc c)) st st2"
      using only_in_mono [OF o1, of "?off + ss_bkt s ! (2 * a)" "?off + ss_bkt s ! (2 * c + 2)"]
        only_in_mono [OF o2, of "?off + ss_bkt s ! (2 * a)" "?off + ss_bkt s ! (2 * c + 2)"] m
      by (auto intro: only_in_trans)
    have "fold (df_round k s) [a..<Suc c] (st, jobs) = (st2, jobs @ (new1 @ new2))"
      using ac by (simp add: f r)
    moreover have "\<forall>b dd. Job b dd \<in> set (new1 @ new2) \<longrightarrow>
          ?off + ss_bkt s ! (2 * a) \<le> sp_off b
          \<and> sp_off b + sp_size b \<le> ?off + ss_bkt s ! (2 * Suc c)"
      using j1 j2 m by fastforce
    ultimately show ?thesis using o by blast
  qed
qed


lemma fill_lcp_arrays:
  "arr0 (fill_lcp k st b v) = arr0 st \<and> arr1 (fill_lcp k st b v) = arr1 st
   \<and> length (lcparray (fill_lcp k st b v)) = length (lcparray st)"
proof -
  have "arr0 (fold (\<lambda>i s. set_lcp k s b i v) is st) = arr0 st
      \<and> arr1 (fold (\<lambda>i s. set_lcp k s b i v) is st) = arr1 st
      \<and> length (lcparray (fold (\<lambda>i s. set_lcp k s b i v) is st)) = length (lcparray st)" for "is"
    by (induction "is" arbitrary: st) (simp_all add: set_lcp_def)
  then show ?thesis by (simp add: fill_lcp_def)
qed

lemma fill_lcp_output: "sp_output k (fill_lcp k st b v) b' = sp_output k st b'"
  by (simp add: sp_output_def fill_lcp_arrays)

lemma copy_back_lcparray: "lcparray (fst (copy_back k st b)) = lcparray st"
  by (simp add: copy_back_def put_output_def)

lemma df_odd_terminal:
  assumes "1 < ss_bkt s ! (i + 1) - ss_bkt s ! i"
    and "ss_splitter_lcp s ! (i div 2) AND 0x80 \<noteq> 0"
  shows "df_odd k s i (st, jobs) =
     (fill_lcp k
        (fst (copy_back k st (flip (ss_strptr s) (ss_bkt s ! i) (ss_bkt s ! (i + 1) - ss_bkt s ! i))))
        (snd (copy_back k st (flip (ss_strptr s) (ss_bkt s ! i) (ss_bkt s ! (i + 1) - ss_bkt s ! i))))
        (ss_depth s + lcpKeyDepth (ss_splitter s ! (i div 2))), jobs)"
proof -
  have "sub_size_t (ss_bkt s ! (i + 1)) (ss_bkt s ! i) = ss_bkt s ! (i + 1) - ss_bkt s ! i"
    using assms(1) by (simp add: sub_size_t_def)
  then show ?thesis
    unfolding df_odd_def using assms by (simp add: Let_def split_beta)
qed

section \<open>Claim about terminal equal buckets\<close>

text \<open>
  C7. In \<^verbatim>\<open>distribute_finished\<close>, let \<open>i\<close> be an odd bucket with more than one string
  whose splitter LCP byte has the high bit set. Then after \<^verbatim>\<open>distribute_finished\<close> the
  strings of the bucket are in the output array, in the order in which the distribution
  left them on the shadow side; every LCP position of the bucket's range except the
  first holds \<open>depth + lcpKeyDepth (splitter (i / 2))\<close> (when the pointer has an LCP
  array); and no child handed to \<^verbatim>\<open>Enqueue\<close> overlaps the bucket.
\<close>

theorem distribute_finished_terminal_bucket:
  assumes len: "length (ss_bkt s0) = bktnum s0 + 1"
    and mono: "sorted ((ss_bkt s0)[bktnum s0 := sp_size (ss_strptr s0)])"
    and fits: "sp_fits st (ss_strptr s0)"
    and i: "odd i" "i < bktnum s0"
    and sz: "1 < ss_bkt s0 ! (i + 1) - ss_bkt s0 ! i"
    and nul: "ss_splitter_lcp s0 ! (i div 2) AND 0x80 \<noteq> 0"
  shows "sp_output k (fst (distribute_finished k s0 st))
           (flip (ss_strptr s0) (ss_bkt s0 ! i) (ss_bkt s0 ! (i + 1) - ss_bkt s0 ! i))
         = sp_active st (flip (ss_strptr s0) (ss_bkt s0 ! i) (ss_bkt s0 ! (i + 1) - ss_bkt s0 ! i))
     \<and> (with_lcp k \<longrightarrow>
          (\<forall>j. 0 < j \<and> j < ss_bkt s0 ! (i + 1) - ss_bkt s0 ! i \<longrightarrow>
             lcparray (fst (distribute_finished k s0 st)) ! (sp_off (ss_strptr s0) + ss_bkt s0 ! i + j)
               = ss_depth s0 + lcpKeyDepth (ss_splitter s0 ! (i div 2))))
     \<and> (\<forall>b d. Job b d \<in> set (snd (distribute_finished k s0 st)) \<longrightarrow>
           sp_off b + sp_size b \<le> sp_off (ss_strptr s0) + ss_bkt s0 ! i
           \<or> sp_off (ss_strptr s0) + ss_bkt s0 ! (i + 1) \<le> sp_off b)"
proof -
  define s where "s = s0\<lparr>ss_bkt := (ss_bkt s0)[bktnum s0 := sp_size (ss_strptr s0)]\<rparr>"
  define N where "N = ss_numsplitters s"
  define off where "off = sp_off (ss_strptr s)"
  define B where "B = ss_bkt s"
  define bb where "bb = flip (ss_strptr s) (B ! i) (B ! (i + 1) - B ! i)"
  define v where "v = ss_depth s + lcpKeyDepth (ss_splitter s ! (i div 2))"
  have [simp]: "ss_strptr s = ss_strptr s0" "ss_depth s = ss_depth s0"
    "ss_splitter s = ss_splitter s0" "ss_splitter_lcp s = ss_splitter_lcp s0"
    "bktnum s = bktnum s0" "ss_numsplitters s = ss_numsplitters s0"
    by (simp_all add: s_def bktnum_def)
  have ok: "bkt_ok s"
    using len mono by (simp add: bkt_ok_def s_def bktnum_def)
  from i obtain j0 where j0: "i = 2 * j0 + 1" by (auto elim: oddE)
  have jN: "j0 < N" using i(2) j0 by (simp add: bktnum_def N_def)
  have Bi: "B ! i = ss_bkt s0 ! i" "B ! (i + 1) = ss_bkt s0 ! (i + 1)"
    "B ! Suc i = ss_bkt s0 ! Suc i"
    using i(2) j0 by (simp_all add: B_def s_def bktnum_def)
  have fitss: "sp_fits st (ss_strptr s)" using fits by simp
  have df: "distribute_finished k s0 st =
      df_even k s (bktnum s - 1) (ss_depth s) (fold (df_round k s) [0..<N] (st, []))"
    by (simp add: distribute_finished_def Let_def s_def N_def bktnum_def)
  have split: "[0..<N] = [0..<j0] @ j0 # [Suc j0..<N]"
    using jN by (metis le0 upt_add_eq_append upt_conv_Cons le_add_diff_inverse less_imp_le_nat add.commute)
  \<comment> \<open>the rounds before the bucket\<close>
  from df_rounds_effect [OF ok fitss, of 0 j0 k "[]"] jN
  obtain stA newA where fA: "fold (df_round k s) [0..<j0] (st, []) = (stA, newA)"
    and oA: "only_in k (off + B ! (2 * 0)) (off + B ! (2 * j0)) st stA"
    and jA: "\<forall>b dd. Job b dd \<in> set newA \<longrightarrow> sp_off b + sp_size b \<le> off + B ! (2 * j0)"
    by (auto simp: N_def off_def B_def)
  have fitsA: "sp_fits stA (ss_strptr s)" using oA fitss by (rule only_in_fits)
  \<comment> \<open>the even bucket of the same round\<close>
  let ?d = "ss_depth s + unat (ss_splitter_lcp s ! ((2 * j0) div 2) AND 0x7F)"
  have bn: "i + 1 \<le> bktnum s" "2 * j0 + 1 \<le> bktnum s" "2 * Suc j0 \<le> bktnum s"
    "2 * N \<le> bktnum s" "2 * N + 1 \<le> bktnum s" "2 * Suc j0 \<le> 2 * N"
    using jN j0 by (simp_all add: bktnum_def N_def)
  have mB: "B ! (2 * j0) \<le> B ! (2 * j0 + 1)" "B ! (2 * j0 + 1) \<le> sp_size (ss_strptr s)"
    "B ! i \<le> B ! (i + 1)" "B ! (i + 1) \<le> sp_size (ss_strptr s)"
    "B ! (i + 1) \<le> B ! (2 * Suc j0)" "B ! (2 * Suc j0) \<le> B ! (2 * N)"
    "B ! (2 * N) \<le> B ! (2 * N + 1)" "B ! (2 * N + 1) \<le> sp_size (ss_strptr s)"
    unfolding B_def
    using bkt_ok_mono [OF ok, of "2 * j0" "2 * j0 + 1"] bkt_ok_le_size [OF ok, of "2 * j0 + 1"]
      bkt_ok_mono [OF ok, of i "i + 1"] bkt_ok_le_size [OF ok, of "i + 1"]
      bkt_ok_mono [OF ok, of "i + 1" "2 * Suc j0"] bkt_ok_mono [OF ok, of "2 * Suc j0" "2 * N"]
      bkt_ok_mono [OF ok, of "2 * N" "2 * N + 1"] bkt_ok_le_size [OF ok, of "2 * N + 1"]
      bn j0
    by simp_all
  from df_even_effect [OF fitsA mB(1,2)[unfolded B_def], of k ?d newA]
  obtain stB newB where eB: "df_even k s (2 * j0) ?d (stA, newA) = (stB, newA @ newB)"
    and oB: "only_in k (off + B ! (2 * j0)) (off + B ! (2 * j0 + 1)) stA stB"
    and jB: "\<forall>b dd. Job b dd \<in> set newB \<longrightarrow> sp_off b + sp_size b = off + B ! (2 * j0 + 1)"
    by (auto simp: off_def B_def)
  have fitsB: "sp_fits stB (ss_strptr s)" using oB fitsA by (rule only_in_fits)
  \<comment> \<open>the bucket itself\<close>
  define stC where "stC = fill_lcp k (fst (copy_back k stB bb)) (snd (copy_back k stB bb)) v"
  have eC: "df_odd k s i (stB, newA @ newB) = (stC, newA @ newB)"
    using df_odd_terminal [of s i k stB "newA @ newB"] sz nul
    by (simp add: stC_def bb_def v_def B_def Bi [unfolded B_def])
  have fbb: "sp_fits st bb" "sp_fits stA bb" "sp_fits stB bb"
    using fitss fitsA fitsB mB(3,4) by (auto simp: sp_fits_def bb_def)
  have bb_off: "sp_off bb = off + B ! i" "sp_off bb + sp_size bb = off + B ! (i + 1)"
    using mB(3) by (simp_all add: bb_def off_def)
  have actB: "sp_active stB bb = sp_active st bb"
  proof -
    have "sp_active stA bb = sp_active st bb"
      using oA fbb(1) by (rule only_in_active_disjoint) (use mB(1) in \<open>simp add: bb_off j0\<close>)
    moreover have "sp_active stB bb = sp_active stA bb"
      using oB fbb(2) by (rule only_in_active_disjoint) (simp add: bb_off j0)
    ultimately show ?thesis by simp
  qed
  have outC: "sp_output k stC bb = sp_active st bb"
    unfolding stC_def fill_lcp_output
    using copy_back_output [of bb stB k] fbb(3) actB by (simp add: sp_fits_def)
  have oC: "only_in k (off + B ! i) (off + B ! (i + 1)) stB stC"
  proof -
    have "only_in k (sp_off bb) (sp_off bb + sp_size bb) stB (fst (copy_back k stB bb))"
      using fbb(3) by (intro only_in_copy_back) (auto simp: sp_fits_def)
    moreover have "only_in k (sp_off bb) (sp_off bb + sp_size bb) (fst (copy_back k stB bb)) stC"
      using only_in_fill_lcp [of k "snd (copy_back k stB bb)" "fst (copy_back k stB bb)" v]
      by (simp add: stC_def)
    ultimately have "only_in k (sp_off bb) (sp_off bb + sp_size bb) stB stC"
      by (rule only_in_trans)
    from this [unfolded bb_off(2), unfolded bb_off(1)] show ?thesis .
  qed
  have fitsC: "sp_fits stC (ss_strptr s)" "sp_fits stC bb"
    using oC fitsB fbb(3) by (auto intro: only_in_fits)
  have lcpC: "lcparray stC ! (sp_off bb + j) = v" if "with_lcp k" "0 < j" "j < sp_size bb" for j
    unfolding stC_def
    using fill_lcp_nth [of k "snd (copy_back k stB bb)" "fst (copy_back k stB bb)" j v] that fbb(3)
    by (simp add: copy_back_lcparray sp_fits_def)
  \<comment> \<open>the rounds after the bucket\<close>
  from df_rounds_effect [OF ok fitsC(1), of "Suc j0" N k "newA @ newB"] jN
  obtain stD newD where fD: "fold (df_round k s) [Suc j0..<N] (stC, newA @ newB) = (stD, (newA @ newB) @ newD)"
    and oD: "only_in k (off + B ! (2 * Suc j0)) (off + B ! (2 * N)) stC stD"
    and jD: "\<forall>b dd. Job b dd \<in> set newD \<longrightarrow> off + B ! (2 * Suc j0) \<le> sp_off b"
    by (auto simp: N_def off_def B_def)
  have fitsD: "sp_fits stD (ss_strptr s)" "sp_fits stD bb"
    using oD fitsC by (auto intro: only_in_fits)
  \<comment> \<open>the last bucket\<close>
  have last: "bktnum s - 1 = 2 * N" by (simp add: bktnum_def N_def)
  from df_even_effect [OF fitsD(1) mB(7,8)[unfolded B_def], of k "ss_depth s" "(newA @ newB) @ newD"]
  obtain stE newE where eE: "df_even k s (2 * N) (ss_depth s) (stD, (newA @ newB) @ newD)
        = (stE, ((newA @ newB) @ newD) @ newE)"
    and oE: "only_in k (off + B ! (2 * N)) (off + B ! (2 * N + 1)) stD stE"
    and jE: "\<forall>b dd. Job b dd \<in> set newE \<longrightarrow> sp_off b = off + B ! (2 * N)"
    by (auto simp: off_def B_def)
  have res: "distribute_finished k s0 st = (stE, ((newA @ newB) @ newD) @ newE)"
    unfolding df split last
    by (simp only: fold_append fold_Cons fold_Nil comp_def fA df_round_def eB
        j0 [symmetric] eC fD eE)
  have up: "off + B ! (i + 1) \<le> off + B ! (2 * Suc j0)" "off + B ! (i + 1) \<le> off + B ! (2 * N)"
    using mB(5,6) by simp_all
  have outE: "sp_output k stE bb = sp_active st bb"
  proof -
    have "sp_output k stD bb = sp_output k stC bb"
      using oD fitsC(2) by (rule only_in_output_disjoint) (use up bb_off in simp)
    moreover have "sp_output k stE bb = sp_output k stD bb"
      using oE fitsD(2) by (rule only_in_output_disjoint) (use up bb_off in simp)
    ultimately show ?thesis using outC by simp
  qed
  have lcpE: "lcparray stE ! (sp_off bb + j) = v" if "with_lcp k" "0 < j" "j < sp_size bb" for j
  proof -
    have "lcparray stD ! (sp_off bb + j) = lcparray stC ! (sp_off bb + j)"
      using oD fitsC(2) _ that(3) by (rule only_in_lcp_disjoint) (use up bb_off in simp)
    moreover have "lcparray stE ! (sp_off bb + j) = lcparray stD ! (sp_off bb + j)"
      using oE fitsD(2) _ that(3) by (rule only_in_lcp_disjoint) (use up bb_off in simp)
    ultimately show ?thesis using lcpC [OF that] by simp
  qed
  have jobs: "sp_off b + sp_size b \<le> off + B ! i \<or> off + B ! (i + 1) \<le> sp_off b"
    if "Job b d \<in> set (((newA @ newB) @ newD) @ newE)" for b d
    using that jA jB jD jE up mB(1) j0 by fastforce
  show ?thesis
    unfolding res fst_conv snd_conv
    using outE lcpE jobs
    by (simp add: bb_def v_def off_def Bi [symmetric] add.assoc)
qed


theorem distribute_finished_terminal_bucket_witness:
  "sp_output StringShadowLcpPtr
     (fst (distribute_finished StringShadowLcpPtr
        \<lparr>ss_strptr = \<lparr>sp_off = 0, sp_size = 4, sp_act1 = False, sp_flipped = False\<rparr>,
         ss_depth = 0, ss_numsplitters = 1, ss_splitter = [0x6200000000000000],
         ss_splitter_lcp = [0x80, 0], ss_bkt = [0, 1, 3, 0]\<rparr>
        \<lparr>arr0 = [[99], [98], [97], [98]], arr1 = [[97], [98], [98], [99]],
         lcparray = [42, 7, 7, 7], cachearr = []\<rparr>))
     (flip \<lparr>sp_off = 0, sp_size = 4, sp_act1 = False, sp_flipped = False\<rparr> 1 2)
     = [[98], [98]]
   \<and> lcparray (fst (distribute_finished StringShadowLcpPtr
        \<lparr>ss_strptr = \<lparr>sp_off = 0, sp_size = 4, sp_act1 = False, sp_flipped = False\<rparr>,
         ss_depth = 0, ss_numsplitters = 1, ss_splitter = [0x6200000000000000],
         ss_splitter_lcp = [0x80, 0], ss_bkt = [0, 1, 3, 0]\<rparr>
        \<lparr>arr0 = [[99], [98], [97], [98]], arr1 = [[97], [98], [98], [99]],
         lcparray = [42, 7, 7, 7], cachearr = []\<rparr>)) ! 2 = 1"
proof -
  let ?sp = "\<lparr>sp_off = 0, sp_size = 4, sp_act1 = False, sp_flipped = False\<rparr>"
  let ?S = "\<lparr>ss_strptr = ?sp, ss_depth = 0, ss_numsplitters = 1,
         ss_splitter = [0x6200000000000000 :: key_type],
         ss_splitter_lcp = [0x80, 0 :: 8 word], ss_bkt = [0, 1, 3, 0 :: nat]\<rparr>"
  let ?ST = "\<lparr>arr0 = [[99], [98], [97], [98 :: 8 word]], arr1 = [[97], [98], [98], [99]],
         lcparray = [42, 7, 7, 7 :: nat], cachearr = []\<rparr>"
  have h1: "length (ss_bkt ?S) = bktnum ?S + 1" by (simp add: bktnum_def)
  have h2: "sorted ((ss_bkt ?S)[bktnum ?S := sp_size (ss_strptr ?S)])" by (simp add: bktnum_def)
  have h3: "sp_fits ?ST (ss_strptr ?S)" by (simp add: sp_fits_def)
  have h4: "odd (1 :: nat)" by simp
  have h5: "1 < bktnum ?S" by (simp add: bktnum_def)
  have h6: "1 < ss_bkt ?S ! (1 + 1) - ss_bkt ?S ! 1" by simp
  have h7: "ss_splitter_lcp ?S ! (1 div 2) AND 0x80 \<noteq> 0" by simp
  note T = distribute_finished_terminal_bucket [OF h1 h2 h3 h4 h5 h6 h7, of StringShadowLcpPtr]
  have a: "sp_active ?ST (flip ?sp 1 2) = [[98], [98]]"
    by (simp add: sp_active_def slice_def)
  have d: "lcpKeyDepth (0x6200000000000000 :: key_type) = 1" by code_simp
  from T [THEN conjunct1] a T [THEN conjunct2, THEN conjunct1, rule_format, of 1] d
  show ?thesis by (simp add: numeral_2_eq_2)
qed

section \<open>The classifier\<close>

text \<open>
  Modelled from the spec: the classifier templates (\<^verbatim>\<open>ClassifyTreeCalcUnrollInterleaveX\<close>
  and its siblings) and \<^verbatim>\<open>DefaultTreebits\<close> are defined in the headers
  \<^verbatim>\<open>sequential/bingmann-sample_sortBTC*.hpp\<close> and
  \<^verbatim>\<open>bingmann-sample_sort_tree_builder.hpp\<close>, which are not part of the sources at
  hand. The spec (section 4.C) gives their contract. \<open>build\<close> takes the sorted sample of
  \<open>2 \<sqdot> NS\<close> keys, picks every other sample starting at \<open>oversample / 2\<close> as a
  splitter (as \<^verbatim>\<open>sample_sortBS\<close> does in the sources:
  \<^verbatim>\<open>splitter[i] = samples[j]; j += oversample_factor\<close>), and sets for each splitter the
  LCP byte: the low 7 bits are \<open>lcp_of(prev_splitter, this_splitter)\<close>, the high bit is
  set iff the splitter ends with a zero byte; for the first splitter the low 7 bits are
  0. \<open>NS = 2^treebits - 1\<close>; \<open>treebits\<close> is a parameter of the model.
\<close>

definition numsplitters :: "nat \<Rightarrow> nat" where
  "numsplitters treebits = 2 ^ treebits - 1"

definition build_splitters :: "nat \<Rightarrow> key_type list \<Rightarrow> key_type list" where
  "build_splitters treebits samples =
     map (\<lambda>i. samples ! (2 * i + 1)) [0..<numsplitters treebits]"

definition lcp_byte :: "key_type \<Rightarrow> key_type \<Rightarrow> 8 word" where
  "lcp_byte prev this =
     of_nat (lcpKeyType prev this) OR (if this AND 0xFF = 0 then 0x80 else 0)"

text \<open>
  The array \<^verbatim>\<open>splitter_lcp[numsplitters + 1]\<close>. The spec names the entries of the
  splitters; the last entry, which \<^verbatim>\<open>sort_sample_sort\<close> reads for the bucket greater
  than every splitter, is taken as 0, so that this bucket keeps the depth, as it does in
  \<^verbatim>\<open>distribute_finished\<close>.
\<close>

definition build_splitter_lcp :: "key_type list \<Rightarrow> 8 word list" where
  "build_splitter_lcp sp =
     map (\<lambda>i. if i = 0 then lcp_byte 0 (sp ! 0) AND 0x80
              else lcp_byte (sp ! (i - 1)) (sp ! i)) [0..<length sp] @ [0]"

text \<open>
  \<open>classify\<close>: descend the balanced tree of splitters from the root, left on \<open><\<close>,
  right on \<open>>\<close>; on equality at splitter \<open>i\<close> (in sorted order) the bucket is
  \<open>2 i + 1\<close>; falling off the tree between the splitters \<open>i - 1\<close> and \<open>i\<close> gives
  bucket \<open>2 i\<close>. The node of the subtree over the sorted splitters \<open>lo \<le> i < hi\<close> is
  the middle one.
\<close>

function find_bkt :: "key_type list \<Rightarrow> key_type \<Rightarrow> nat \<Rightarrow> nat \<Rightarrow> nat" where
  "find_bkt sp key lo hi =
     (if lo < hi then
        (let mid = (lo + hi) div 2 in
         if key = sp ! mid then 2 * mid + 1
         else if key < sp ! mid then find_bkt sp key lo mid
         else find_bkt sp key (mid + 1) hi)
      else 2 * lo)"
  by pat_completeness auto
termination
  by (relation "measure (\<lambda>(sp, key, lo, hi). hi - lo)") auto

declare find_bkt.simps [simp del]


definition classify :: "nat \<Rightarrow> key_type list \<Rightarrow> str list \<Rightarrow> nat \<Rightarrow> nat list" where
  "classify treebits sp strs depth =
     map (\<lambda>s. find_bkt sp (get_uint64 s depth) 0 (numsplitters treebits)) strs"

section \<open>The environment of a run\<close>

text \<open>
  What a run of the sorter depends on besides the strings: the pointer class, the
  context, the tree size of the classifier, and two sources of nondeterminism.

  Modelled from the spec: \<^verbatim>\<open>LCGRandom\<close> comes from \<^verbatim>\<open>tools/lcgrandom.hpp\<close> and the job
  queue with \<^verbatim>\<open>has_idle()\<close> from \<^verbatim>\<open>tools/jobqueue.hpp\<close>; neither is part of the
  sources at hand. The generator is seeded with the address of the sample array
  (\<^verbatim>\<open>LCGRandom rng(&samples)\<close>), so the numbers it returns are a parameter, \<open>e_rand\<close>;
  whether another worker is idle depends on the schedule, so the decisions of the work
  sharing are a parameter too, \<open>e_idle\<close>. Both are read at a position that advances
  with every use (the second component of the state below).
\<close>

record env =
  e_kind :: ptr_kind
  e_totalsize :: nat
  e_threadnum :: nat
  e_CalcLcp :: bool
  e_treebits :: nat
  e_rand :: "nat \<Rightarrow> nat"
  e_idle :: "nat \<Rightarrow> nat"

definition e_ctx :: "env \<Rightarrow> Context" where
  "e_ctx e = \<lparr>totalsize = e_totalsize e, threadnum = e_threadnum e\<rparr>"

type_synonym state = "store \<times> nat"

section \<open>Sampling, counting and the out-of-place permutation\<close>

text \<open>
  Step 1 of both sample sort steps: \<open>2 \<sqdot> numsplitters\<close> keys of randomly chosen
  strings (\<^verbatim>\<open>strset[begin + rng() % n]\<close>), sorted.
\<close>

definition draw_samples :: "env \<Rightarrow> nat \<Rightarrow> str list \<Rightarrow> nat \<Rightarrow> key_type list" where
  "draw_samples e tick strs depth =
     sort (map (\<lambda>i. get_uint64 (strs ! (e_rand e (tick + i) mod length strs)) depth)
            [0..<2 * numsplitters (e_treebits e)])"

text \<open>\<^verbatim>\<open>++bktsize[bktcache[si]]\<close> for every string.\<close>

definition count_bkts :: "nat \<Rightarrow> nat list \<Rightarrow> nat list" where
  "count_bkts n bktcache = fold (\<lambda>b bs. bs[b := bs ! b + 1]) bktcache (replicate n 0)"

text \<open>The inclusive prefix sum \<^verbatim>\<open>bkt[i] = bkt[i - 1] + bktsize[i]\<close>.\<close>

fun prefix_sum :: "nat \<Rightarrow> nat list \<Rightarrow> nat list" where
  "prefix_sum acc [] = []"
| "prefix_sum acc (x # xs) = (acc + x) # prefix_sum (acc + x) xs"

text \<open>
  Step 4, \<^verbatim>\<open>*(sbegin + --bkt[*bktcache]) = std::move(*str)\<close> for every string in order:
  the strings, their buckets, and the pair of the bucket pointers and the target array.
\<close>

fun permute :: "str list \<Rightarrow> nat list \<Rightarrow> nat list \<times> str list \<Rightarrow> nat list \<times> str list" where
  "permute (x # xs) (b # bs) (bkt, tgt) =
     (let bkt' = bkt[b := bkt ! b - 1] in permute xs bs (bkt', tgt[bkt' ! b := x]))"
| "permute _ _ acc = acc"


section \<open>The sequential sample sort step\<close>

text \<open>
  The constructor \<^verbatim>\<open>SeqSampleSortStep::SeqSampleSortStep\<close> on a pointer \<open>sp\<close> at depth
  \<open>d\<close>: sample, build the classifier, classify, count, prefix sum, permute from the
  active to the shadow side. It returns the members of the step (the same as those of
  the parallel step: pointer, depth, splitters, their LCP bytes, bucket boundaries) and
  the new state.
\<close>

definition SeqSampleSortStep :: "env \<Rightarrow> strptr \<Rightarrow> nat \<Rightarrow> state \<Rightarrow> sstep \<times> state" where
  "SeqSampleSortStep e sp d = (\<lambda>(st, tick).
     (let n = sp_size sp;
          ns = numsplitters (e_treebits e);
          strs = sp_active st sp;
          samples = draw_samples e tick strs d;
          splitter = build_splitters (e_treebits e) samples;
          splitter_lcp = build_splitter_lcp splitter;
          bktcache = classify (e_treebits e) splitter strs d;
          bktsize = count_bkts (2 * ns + 1) bktcache;
          bkt = prefix_sum 0 bktsize @ [n];
          (bkt', tgt) = permute strs bktcache (bkt, sp_shadow st sp)
      in (\<lparr>ss_strptr = sp, ss_depth = d, ss_numsplitters = ns, ss_splitter = splitter,
           ss_splitter_lcp = splitter_lcp, ss_bkt = bkt'\<rparr>,
          (put_shadow st sp tgt, tick + 2 * ns))))"

section \<open>The parallel sample sort step: sample, count, distribute\<close>

text \<open>
  \<^verbatim>\<open>SampleSortStep::sample\<close> builds the classifier; \<^verbatim>\<open>count(p)\<close> classifies part \<open>p\<close>
  into \<^verbatim>\<open>bktcache[p]\<close> and counts into \<^verbatim>\<open>bkt[p]\<close>; \<^verbatim>\<open>count_finished\<close> turns the
  counts into the inclusive prefix sum over buckets (outer loop) and parts (inner loop);
  \<^verbatim>\<open>distribute(p)\<close> permutes part \<open>p\<close> into the shadow side with the pointers
  \<^verbatim>\<open>bkt[p]\<close>. The jobs of one phase touch disjoint data; the model runs them in the
  order of their part numbers.
\<close>

definition part_strs :: "str list \<Rightarrow> nat \<Rightarrow> nat \<Rightarrow> str list" where
  "part_strs strs psize p =
     (let (strB, strE) = part_range (length strs) psize p in slice strs strB (strE - strB))"

definition count_part :: "env \<Rightarrow> key_type list \<Rightarrow> str list \<Rightarrow> nat \<Rightarrow> nat \<Rightarrow> nat \<Rightarrow> nat list \<times> nat list" where
  "count_part e splitter strs d psize p =
     (let mybktcache = classify (e_treebits e) splitter (part_strs strs psize p) d;
          mybkt = count_bkts (2 * numsplitters (e_treebits e) + 1) mybktcache
      in (mybktcache, mybkt))"

text \<open>
  The double loop of \<^verbatim>\<open>count_finished\<close>: \<^verbatim>\<open>bkt[p][i] = (sum += bkt[p][i])\<close> for
  \<open>i\<close> from 0 to \<open>bktnum - 1\<close> and, within, \<open>p\<close> from 0 to \<open>parts - 1\<close>.
\<close>

definition count_finished :: "nat \<Rightarrow> nat \<Rightarrow> nat list list \<Rightarrow> nat list list \<times> nat" where
  "count_finished nbkt parts bkt =
     fold (\<lambda>i. fold (\<lambda>p (bkt, sum).
                    (let sum' = sum + bkt ! p ! i in (bkt[p := (bkt ! p)[i := sum']], sum')))
                 [0..<parts])
          [0..<nbkt] (bkt, 0)"

text \<open>\<^verbatim>\<open>distribute(p)\<close>: the bucket pointers of every part and the shadow array.\<close>

definition distribute_part ::
  "str list \<Rightarrow> nat \<Rightarrow> nat list list \<Rightarrow> nat \<Rightarrow> nat list list \<times> str list \<Rightarrow> nat list list \<times> str list" where
  "distribute_part strs psize bktcache p = (\<lambda>(bkt, tgt).
     (let (mybkt, tgt') = permute (part_strs strs psize p) (bktcache ! p) (bkt ! p, tgt)
      in (bkt[p := mybkt], tgt')))"

text \<open>
  The three phases on a pointer \<open>sp\<close> at depth \<open>d\<close>, up to the point where
  \<^verbatim>\<open>distribute_finished\<close> takes over: the step with \<^verbatim>\<open>bkt[0]\<close> (one slot longer, for
  the sentinel) and the new state.
\<close>

definition SampleSortStep :: "env \<Rightarrow> strptr \<Rightarrow> nat \<Rightarrow> state \<Rightarrow> sstep \<times> state" where
  "SampleSortStep e sp d = (\<lambda>(st, tick).
     (let n = sp_size sp;
          ns = numsplitters (e_treebits e);
          parts = SampleSortStep_parts (e_ctx e) n;
          psize = SampleSortStep_psize (e_ctx e) n;
          strs = sp_active st sp;
          samples = draw_samples e tick strs d;
          splitter = build_splitters (e_treebits e) samples;
          splitter_lcp = build_splitter_lcp splitter;
          counted = map (count_part e splitter strs d psize) [0..<parts];
          bktcache = map fst counted;
          (bkt, sum) = count_finished (2 * ns + 1) parts (map snd counted);
          (bkt', tgt) = fold (distribute_part strs psize bktcache) [0..<parts] (bkt, sp_shadow st sp)
      in (\<lparr>ss_strptr = sp, ss_depth = d, ss_numsplitters = ns, ss_splitter = splitter,
           ss_splitter_lcp = splitter_lcp, ss_bkt = bkt' ! 0 @ [0]\<rparr>,
          (put_shadow st sp tgt, tick + 2 * ns))))"


section \<open>LCP calculation for a finished sample sort step\<close>

text \<open>
  \<^verbatim>\<open>sample_sort_lcp\<close>. The two loops of the source (joined by \<^verbatim>\<open>goto\<close>) visit the
  buckets in order; the first one stops at the first non-empty bucket and only takes the
  key of its last string as \<^verbatim>\<open>prevkey\<close>, the second one writes, for every later
  non-empty bucket \<open>b\<close>, the LCP and the distinguishing character at the position
  \<^verbatim>\<open>bkt[b]\<close> and moves \<^verbatim>\<open>prevkey\<close> on. In the model the loop state is the previous
  key, \<open>None\<close> as long as no non-empty bucket has been seen. For an odd bucket the key
  is the splitter; for an even bucket it is read from the output array.
\<close>

definition lcp_bucket :: "ptr_kind \<Rightarrow> sstep \<Rightarrow> nat \<Rightarrow> key_type option \<times> store \<Rightarrow> key_type option \<times> store" where
  "lcp_bucket k s b = (\<lambda>(prevkey, st).
     (if ss_bkt s ! b = ss_bkt s ! (b + 1) then (prevkey, st)
      else
        (let strset = sp_output k st (ss_strptr s);
             thiskey = (if odd b then ss_splitter s ! (b div 2)
                        else get_uint64 (strset ! (ss_bkt s ! b)) (ss_depth s));
             lastkey = (if odd b then ss_splitter s ! (b div 2)
                        else get_uint64 (strset ! (ss_bkt s ! (b + 1) - 1)) (ss_depth s))
         in case prevkey of
              None \<Rightarrow> (Some lastkey, st)
            | Some pk \<Rightarrow>
                (let rlcp = lcpKeyType pk thiskey;
                     st1 = set_lcp k st (ss_strptr s) (ss_bkt s ! b) (ss_depth s + rlcp);
                     st2 = set_cache k st1 (ss_strptr s) (ss_bkt s ! b) (getCharAtDepth thiskey rlcp)
                 in (Some lastkey, st2)))))"

definition sample_sort_lcp :: "ptr_kind \<Rightarrow> sstep \<Rightarrow> store \<Rightarrow> store" where
  "sample_sort_lcp k s st = snd (fold (lcp_bucket k s) [0..<bktnum s] (None, st))"

text \<open>
  \<^verbatim>\<open>calculate_lcp\<close> of the sequential step and \<^verbatim>\<open>substep_all_done\<close> of the parallel
  step: the LCP pass runs only \<^verbatim>\<open>if (Context::CalcLcp)\<close>.
\<close>

definition step_calculate_lcp :: "env \<Rightarrow> sstep \<Rightarrow> store \<Rightarrow> store" where
  "step_calculate_lcp e s st = (if e_CalcLcp e then sample_sort_lcp (e_kind e) s st else st)"

section \<open>Insertion sort\<close>

datatype error = AssertionFailed | OutOfFuel

type_synonym 'a result = "error + 'a"

definition then_do :: "'a result \<Rightarrow> ('a \<Rightarrow> 'b result) \<Rightarrow> 'b result" where
  "then_do r f = (case r of Inl err \<Rightarrow> Inl err | Inr x \<Rightarrow> f x)"

text \<open>The byte of a string at a position; the terminator and whatever follows read as 0.\<close>

definition str_at :: "str \<Rightarrow> nat \<Rightarrow> 8 word" where
  "str_at s i = (if i < length (str_content s) then str_content s ! i else 0)"

definition lcp_from :: "nat \<Rightarrow> str \<Rightarrow> str \<Rightarrow> nat" where
  "lcp_from depth a b =
     depth + length (longest_common_prefix (drop depth (str_content a)) (drop depth (str_content b)))"

text \<open>
  Modelled from the spec: \<^verbatim>\<open>insertion_sort(strptr, depth)\<close> of the source only selects,
  by the pointer class, one of \<^verbatim>\<open>inssort::inssort_generic\<close> and
  \<^verbatim>\<open>bingmann::lcp_insertion_sort\<close>, which are defined in \<^verbatim>\<open>sequential/inssort.hpp\<close> and
  \<^verbatim>\<open>sequential/bingmann-lcp_inssort.hpp\<close>, not part of the sources at hand. By the spec
  (sections 4.F and 8) an insertion sort at depth \<open>d\<close> orders the strings of the range by
  their bytes from offset \<open>d\<close> on and, for the pointer classes with an LCP array, sets
  \<open>lcp[i]\<close> for \<open>i \<ge> 1\<close> to the length of the common prefix of neighbours and
  \<open>cache[i]\<close> to the byte of string \<open>i\<close> at that offset. The assertion
  \<^verbatim>\<open>assert(!strptr.flipped())\<close> is the source's.
\<close>

definition insertion_sort :: "ptr_kind \<Rightarrow> store \<Rightarrow> strptr \<Rightarrow> nat \<Rightarrow> store result" where
  "insertion_sort k st sp depth =
     (if sp_flipped sp then Inl AssertionFailed
      else
        (let out = sort_key (\<lambda>s. drop depth (str_content s)) (sp_output k st sp);
             st1 = put_output k st sp out;
             st2 = fold (\<lambda>i s. set_cache k
                      (set_lcp k s sp i (lcp_from depth (out ! (i - 1)) (out ! i))) sp i
                      (str_at (out ! i) (lcp_from depth (out ! (i - 1)) (out ! i))))
                    [1..<sp_size sp] st1
         in Inr st2))"

text \<open>
  \<^verbatim>\<open>insertion_sort_cache_block\<close>: insertion sort of the strings by their cached keys
  only. The inner loop shifts the entries greater than \<open>tmpc\<close> one place up, starting
  below \<open>pj\<close>, and returns the place of the hole.
\<close>

function shift_up :: "str list \<times> key_type list \<Rightarrow> key_type \<Rightarrow> nat \<Rightarrow> (str list \<times> key_type list) \<times> nat" where
  "shift_up (strings, ckeys) tmpc pj =
     (if pj > 0 then
        (if ckeys ! (pj - 1) \<le> tmpc then ((strings, ckeys), pj)
         else shift_up (strings[pj := strings ! (pj - 1)], ckeys[pj := ckeys ! (pj - 1)]) tmpc (pj - 1))
      else ((strings, ckeys), pj))"
  by pat_completeness auto
termination
  by (relation "measure (\<lambda>(sc, tmpc, pj). pj)") auto

declare shift_up.simps [simp del]

definition insert_at :: "nat \<Rightarrow> str list \<times> key_type list \<Rightarrow> str list \<times> key_type list" where
  "insert_at pi = (\<lambda>(strings, ckeys).
     (let tmps = strings ! pi; tmpc = ckeys ! pi;
          ((strings', ckeys'), pj) = shift_up (strings, ckeys) tmpc pi
      in (strings'[pj := tmps], ckeys'[pj := tmpc])))"

definition insertion_sort_cache_block :: "str list \<times> key_type list \<Rightarrow> str list \<times> key_type list" where
  "insertion_sort_cache_block sc = fold insert_at [1..<length (fst sc)] sc"


text \<open>
  The block that \<^verbatim>\<open>insertion_sort_cache\<close> runs when a group of equal cached keys ends
  (in the loop and once more after it): the LCP between this group and the one before
  it, then the deeper sort or the fill of the group.
\<close>

definition group_finish ::
  "ptr_kind \<Rightarrow> strptr \<Rightarrow> key_type list \<Rightarrow> nat \<Rightarrow> nat \<Rightarrow> nat \<Rightarrow> store \<Rightarrow> store result" where
  "group_finish k sp ckeys depth start bktsize st =
     (let st1 = (if start \<noteq> 0 then
                   (let rlcp = lcpKeyType (ckeys ! (start - 1)) (ckeys ! start) in
                    set_cache k (set_lcp k st sp start (depth + rlcp)) sp start
                      (getCharAtDepth (ckeys ! start) rlcp))
                 else st)
      in if bktsize > 1 then
           (if ckeys ! start AND 0xFF \<noteq> 0 then
              insertion_sort k st1 (sub sp start bktsize) (depth + 8)
            else Inr (fill_lcp k st1 (sub sp start bktsize) (depth + lcpKeyDepth (ckeys ! start))))
         else Inr st1)"

function group_loop ::
  "ptr_kind \<Rightarrow> strptr \<Rightarrow> key_type list \<Rightarrow> nat \<Rightarrow> nat \<Rightarrow> nat \<Rightarrow> nat \<Rightarrow> store \<Rightarrow> store result" where
  "group_loop k sp ckeys depth i start bktsize st =
     (if i < sp_size sp - 1 then
        (if ckeys ! i = ckeys ! (i + 1) then
           group_loop k sp ckeys depth (i + 1) start (bktsize + 1) st
         else
           then_do (group_finish k sp ckeys depth start bktsize st)
             (\<lambda>st'. group_loop k sp ckeys depth (i + 1) (i + 1) 1 st'))
      else group_finish k sp ckeys depth start bktsize st)"
  by pat_completeness auto
termination
  by (relation "measure (\<lambda>(k, sp, ckeys, depth, i, start, bktsize, st). sp_size sp - 1 - i)") auto

declare group_loop.simps [simp del]

text \<open>
  \<^verbatim>\<open>insertion_sort_cache<CacheDirty>\<close>. (The loop of \<^verbatim>\<open>insertion_sort_cache_block\<close>
  starts with \<^verbatim>\<open>--n > 0\<close>; it is only reached with at least two strings.)
\<close>

definition insertion_sort_cache ::
  "bool \<Rightarrow> ptr_kind \<Rightarrow> store \<Rightarrow> strptr \<Rightarrow> key_type list \<Rightarrow> nat \<Rightarrow> store result" where
  "insertion_sort_cache CacheDirty k st sp0 ckeys depth =
     (let (st1, sp) = copy_back k st sp0 in
      if sp_size sp \<le> 1 then Inr st1
      else if CacheDirty then insertion_sort k st1 sp depth
      else
        (let (strings, ckeys') = insertion_sort_cache_block (sp_output k st1 sp, ckeys);
             st2 = put_output k st1 sp strings
         in group_loop k sp ckeys' depth 0 0 1 st2))"

section \<open>The sorting jobs\<close>

text \<open>
  \<^verbatim>\<open>MKQSStep::calculate_lcp\<close> (with \<^verbatim>\<open>PS5_CALC_LCP_MKQS == 1\<close>).
\<close>

definition mkqs_calculate_lcp :: "ptr_kind \<Rightarrow> mkqs_step \<Rightarrow> strptr \<Rightarrow> store \<Rightarrow> store" where
  "mkqs_calculate_lcp k ms sp st =
     (let st1 = (if num_lt ms > 0 then
                   set_cache k (set_lcp k st sp (num_lt ms) (ms_depth ms + lcp_lt ms)) sp
                     (num_lt ms) (dchar_eq ms)
                 else st)
      in if num_gt ms > 0 then
           set_cache k (set_lcp k st1 sp (num_lt ms + num_eq ms) (ms_depth ms + lcp_gt ms)) sp
             (num_lt ms + num_eq ms) (dchar_gt ms)
         else st1)"

text \<open>
  The units of work. \<open>Enqueue sp d\<close> is a call of \<^verbatim>\<open>Enqueue\<close> with its job;
  \<open>MkqsFrame sp ckeys d dirty\<close> is a frame of \<^verbatim>\<open>ms_stack\<close> from its construction
  \<^verbatim>\<open>ms_stack.emplace_back(ctx, sp, cache, d, dirty)\<close> to its \<^verbatim>\<open>calculate_lcp\<close>;
  \<open>SeqFrame sp d\<close> is a frame of \<^verbatim>\<open>ss_stack\<close> in the same way. The explicit stacks
  of \<^verbatim>\<open>SmallsortJob\<close> hold the frames of this recursion: pushing a frame is the
  recursive call, \<^verbatim>\<open>idx\<close> is the point of return.
\<close>

datatype task =
  Enqueue strptr nat
| MkqsFrame strptr "key_type list" nat bool
| SeqFrame strptr nat

text \<open>
  \<^verbatim>\<open>sort_mkqs_cache\<close>: insertion sort below the threshold, otherwise the first frame
  with a dirty cache. \<open>r\<close> runs a unit of work.
\<close>

definition sort_mkqs_cache ::
  "(task \<Rightarrow> state \<Rightarrow> state result) \<Rightarrow> env \<Rightarrow> strptr \<Rightarrow> nat \<Rightarrow> state \<Rightarrow> state result" where
  "sort_mkqs_cache r e sp depth = (\<lambda>(st, tick).
     (if sp_size sp < g_inssort_threshold then
        (let (st1, sp1) = copy_back (e_kind e) st sp in
         then_do (insertion_sort (e_kind e) st1 sp1 depth) (\<lambda>st2. Inr (st2, tick)))
      else r (MkqsFrame sp [] depth True) (st, tick)))"

text \<open>
  Work sharing. When \<^verbatim>\<open>has_idle()\<close> holds, \<^verbatim>\<open>sample_sort_free_work\<close> and
  \<^verbatim>\<open>mkqs_free_work\<close> turn the parts of the bottom frames that have not been started
  into independent jobs (\<^verbatim>\<open>Enqueue\<close>); the frame stays on the stack until
  \<^verbatim>\<open>substep_all_done\<close> calls its \<^verbatim>\<open>calculate_lcp\<close>. For a frame this means: there is a
  value \<open>fr\<close> of \<^verbatim>\<open>idx\<close> from which on its parts go through \<^verbatim>\<open>Enqueue\<close> instead of
  being handled in the loop. The model reads \<open>fr\<close> from \<open>e_idle\<close> when the frame is
  built; a value beyond the last part means that the frame is never given away.
\<close>

definition mkqs_lt ::
  "(task \<Rightarrow> state \<Rightarrow> state result) \<Rightarrow> env \<Rightarrow> nat \<Rightarrow> strptr \<Rightarrow> mkqs_step \<Rightarrow> state \<Rightarrow> state result" where
  "mkqs_lt r e fr sp ms = (\<lambda>(st, tick).
     (if fr \<le> 0 then
        (if num_lt ms \<noteq> 0 then r (Enqueue (sub sp 0 (num_lt ms)) (ms_depth ms)) (st, tick)
         else Inr (st, tick))
      else if num_lt ms = 0 then Inr (st, tick)
      else if num_lt ms < g_inssort_threshold then
        then_do (insertion_sort_cache False (e_kind e) st (sub sp 0 (num_lt ms))
                   (take (num_lt ms) (ms_cache ms)) (ms_depth ms))
          (\<lambda>st'. Inr (st', tick))
      else r (MkqsFrame (sub sp 0 (num_lt ms)) (take (num_lt ms) (ms_cache ms)) (ms_depth ms) False)
             (st, tick)))"

definition mkqs_eq ::
  "(task \<Rightarrow> state \<Rightarrow> state result) \<Rightarrow> env \<Rightarrow> nat \<Rightarrow> strptr \<Rightarrow> mkqs_step \<Rightarrow> state \<Rightarrow> state result" where
  "mkqs_eq r e fr sp0 ms = (\<lambda>(st, tick).
     (let sp = sub sp0 (num_lt ms) (num_eq ms);
          ckeys = slice (ms_cache ms) (num_lt ms) (num_eq ms)
      in if num_eq ms = 0 then Inl AssertionFailed
         else if fr \<le> 1 then
           (if eq_recurse ms \<noteq> 0 then r (Enqueue sp (ms_depth ms + 8)) (st, tick)
            else
              (let (st1, spb) = copy_back (e_kind e) st sp in
               Inr (fill_lcp (e_kind e) st1 spb (ms_depth ms + lcp_eq ms), tick)))
         else if eq_recurse ms = 0 then
           (let (st1, spb) = copy_back (e_kind e) st sp in
            Inr (fill_lcp (e_kind e) st1 spb (ms_depth ms + lcp_eq ms), tick))
         else if num_eq ms < g_inssort_threshold then
           then_do (insertion_sort_cache True (e_kind e) st sp ckeys (ms_depth ms + 8))
             (\<lambda>st'. Inr (st', tick))
         else r (MkqsFrame sp ckeys (ms_depth ms + 8) True) (st, tick)))"

definition mkqs_gt ::
  "(task \<Rightarrow> state \<Rightarrow> state result) \<Rightarrow> env \<Rightarrow> nat \<Rightarrow> strptr \<Rightarrow> mkqs_step \<Rightarrow> state \<Rightarrow> state result" where
  "mkqs_gt r e fr sp0 ms = (\<lambda>(st, tick).
     (let sp = sub sp0 (num_lt ms + num_eq ms) (num_gt ms);
          ckeys = drop (num_lt ms + num_eq ms) (ms_cache ms)
      in if fr \<le> 2 then
           (if num_gt ms \<noteq> 0 then r (Enqueue sp (ms_depth ms)) (st, tick) else Inr (st, tick))
         else if num_gt ms = 0 then Inr (st, tick)
         else if num_gt ms < g_inssort_threshold then
           then_do (insertion_sort_cache False (e_kind e) st sp ckeys (ms_depth ms))
             (\<lambda>st'. Inr (st', tick))
         else r (MkqsFrame sp ckeys (ms_depth ms) False) (st, tick)))"

text \<open>
  A frame of the MKQS stack: the constructor (with its assertions
  \<^verbatim>\<open>assert(num_eq > 0)\<close> and \<^verbatim>\<open>assert(num_lt + num_eq + num_gt == n)\<close>), the three
  parts, \<^verbatim>\<open>calculate_lcp\<close>.
\<close>

definition mkqs_frame ::
  "(task \<Rightarrow> state \<Rightarrow> state result) \<Rightarrow> env \<Rightarrow> strptr \<Rightarrow> key_type list \<Rightarrow> nat \<Rightarrow> bool
     \<Rightarrow> state \<Rightarrow> state result" where
  "mkqs_frame r e sp ckeys depth CacheDirty = (\<lambda>(st, tick).
     (let ms = MKQSStep (sp_active st sp) ckeys depth CacheDirty;
          st1 = put_active st sp (ms_strset ms);
          fr = e_idle e tick
      in if \<not> (num_eq ms > 0 \<and> num_lt ms + num_eq ms + num_gt ms = sp_size sp)
         then Inl AssertionFailed
         else
           then_do (mkqs_lt r e fr sp ms (st1, tick + 1)) (\<lambda>w2.
           then_do (mkqs_eq r e fr sp ms w2) (\<lambda>w3.
           then_do (mkqs_gt r e fr sp ms w3) (\<lambda>(st4, tick4).
             Inr (mkqs_calculate_lcp (e_kind e) ms sp st4, tick4))))))"


text \<open>Running a list of steps in order, stopping at the first failure.\<close>

definition run_all :: "('a \<Rightarrow> state \<Rightarrow> state result) \<Rightarrow> 'a list \<Rightarrow> state \<Rightarrow> state result" where
  "run_all f xs w = fold (\<lambda>x acc. then_do acc (f x)) xs (Inr w)"

text \<open>
  Bucket \<open>i\<close> of a frame of the sample sort stack: in the loop of
  \<^verbatim>\<open>sort_sample_sort\<close> (\<open>i < fr\<close>), or handed out by \<^verbatim>\<open>sample_sort_free_work\<close>.
\<close>

definition seq_done_bucket :: "env \<Rightarrow> sstep \<Rightarrow> nat \<Rightarrow> strptr \<Rightarrow> state \<Rightarrow> state result" where
  "seq_done_bucket e s i sp = (\<lambda>(st, tick).
     (let (st1, spb) = copy_back (e_kind e) st sp in
      Inr ((if e_CalcLcp e then
              fill_lcp (e_kind e) st1 spb (ss_depth s + lcpKeyDepth (ss_splitter s ! (i div 2)))
            else st1), tick)))"

definition seq_bucket ::
  "(task \<Rightarrow> state \<Rightarrow> state result) \<Rightarrow> env \<Rightarrow> nat \<Rightarrow> sstep \<Rightarrow> nat \<Rightarrow> state \<Rightarrow> state result" where
  "seq_bucket r e fr s i w =
     (let bktsize = sub_size_t (ss_bkt s ! (i + 1)) (ss_bkt s ! i);
          sp = flip (ss_strptr s) (ss_bkt s ! i) bktsize
      in if i < fr then
           (if even i then
              (if bktsize = 0 then Inr w
               else if bktsize < g_smallsort_threshold then
                 sort_mkqs_cache r e sp
                   (ss_depth s + unat (ss_splitter_lcp s ! (i div 2) AND 0x7F)) w
               else r (SeqFrame sp (ss_depth s + unat (ss_splitter_lcp s ! (i div 2) AND 0x7F))) w)
            else
              (if bktsize = 0 then Inr w
               else if ss_splitter_lcp s ! (i div 2) AND 0x80 \<noteq> 0 then seq_done_bucket e s i sp w
               else if bktsize < g_smallsort_threshold then
                 sort_mkqs_cache r e sp (ss_depth s + 8) w
               else r (SeqFrame sp (ss_depth s + 8)) w))
         else
           (if even i then
              (if bktsize = 0 then Inr w
               else r (Enqueue sp (ss_depth s + unat (ss_splitter_lcp s ! (i div 2) AND 0x7F))) w)
            else
              (if bktsize = 0 then Inr w
               else if ss_splitter_lcp s ! (i div 2) AND 0x80 \<noteq> 0 then seq_done_bucket e s i sp w
               else r (Enqueue sp (ss_depth s + 8)) w)))"

definition seq_frame ::
  "(task \<Rightarrow> state \<Rightarrow> state result) \<Rightarrow> env \<Rightarrow> strptr \<Rightarrow> nat \<Rightarrow> state \<Rightarrow> state result" where
  "seq_frame r e sp depth w =
     (let (s, (st1, tick1)) = SeqSampleSortStep e sp depth w;
          fr = e_idle e tick1
      in then_do (run_all (seq_bucket r e fr s) [0..<bktnum s] (st1, tick1 + 1))
           (\<lambda>(st2, tick2). Inr (step_calculate_lcp e s st2, tick2)))"

text \<open>
  \<^verbatim>\<open>Enqueue\<close>. Above the sequential threshold it creates a parallel step: its three
  phases, \<^verbatim>\<open>distribute_finished\<close>, the children, and \<^verbatim>\<open>substep_all_done\<close> once they are
  all done. Otherwise it creates a \<^verbatim>\<open>SmallsortJob\<close>, whose \<^verbatim>\<open>run\<close> starts the
  sequential sample sort at \<open>g_smallsort_threshold\<close> strings and the MKQS below. (The
  two instances with 32-bit and 64-bit bucket counters do the same.)
\<close>

definition enqueue ::
  "(task \<Rightarrow> state \<Rightarrow> state result) \<Rightarrow> env \<Rightarrow> strptr \<Rightarrow> nat \<Rightarrow> state \<Rightarrow> state result" where
  "enqueue r e sp depth w =
     (if sp_size sp > sequential_threshold (e_ctx e) then
        (let (s, (st1, tick1)) = SampleSortStep e sp depth w;
             (st2, jobs) = distribute_finished (e_kind e) s st1;
             s' = s\<lparr>ss_bkt := (ss_bkt s)[bktnum s := sp_size sp]\<rparr>
         in then_do (run_all (\<lambda>j. case j of Job b d \<Rightarrow> r (Enqueue b d)) jobs (st2, tick1))
              (\<lambda>(st3, tick3). Inr (step_calculate_lcp e s' st3, tick3)))
      else if g_smallsort_threshold \<le> sp_size sp then r (SeqFrame sp depth) w
      else sort_mkqs_cache r e sp depth w)"

definition step :: "env \<Rightarrow> (task \<Rightarrow> state \<Rightarrow> state result) \<Rightarrow> task \<Rightarrow> state \<Rightarrow> state result" where
  "step e r t w =
     (case t of
        Enqueue sp d \<Rightarrow> enqueue r e sp d w
      | MkqsFrame sp ckeys d dirty \<Rightarrow> mkqs_frame r e sp ckeys d dirty w
      | SeqFrame sp d \<Rightarrow> seq_frame r e sp d w)"

text \<open>
  The job loop. \<open>run fuel\<close> runs a unit of work whose nesting of units is at most
  \<open>fuel\<close> deep; \<open>OutOfFuel\<close> tells that the bound was too small.
\<close>

primrec run :: "nat \<Rightarrow> env \<Rightarrow> task \<Rightarrow> state \<Rightarrow> state result" where
  "run 0 e = (\<lambda>t w. Inl OutOfFuel)"
| "run (Suc fuel) e = step e (run fuel e)"

section \<open>Entry points\<close>

text \<open>
  \<^verbatim>\<open>parallel_sample_sort\<close>: \<^verbatim>\<open>Context<false>\<close>, \<^verbatim>\<open>totalsize = strptr.size()\<close>, the
  number of threads of the environment; \<^verbatim>\<open>Enqueue\<close> the whole range, then the job loop.
\<close>

definition root_ptr :: "nat \<Rightarrow> strptr" where
  "root_ptr n = \<lparr>sp_off = 0, sp_size = n, sp_act1 = False, sp_flipped = False\<rparr>"

definition parallel_sample_sort :: "nat \<Rightarrow> env \<Rightarrow> strptr \<Rightarrow> nat \<Rightarrow> store \<Rightarrow> store result" where
  "parallel_sample_sort fuel e sp depth st =
     then_do (run fuel (e\<lparr>e_totalsize := sp_size sp, e_CalcLcp := False\<rparr>) (Enqueue sp depth) (st, 0))
       (\<lambda>(st', tick). Inr st')"

text \<open>
  \<^verbatim>\<open>parallel_sample_sort_base\<close> (sort in place, with an allocated shadow array),
  \<^verbatim>\<open>parallel_sample_sort_out_base\<close> (sort into \<open>output\<close>, which is also the shadow
  array) and \<^verbatim>\<open>parallel_sample_sort_lcp_base\<close> (in place, with an LCP array). Each
  returns the sorted array (and the LCP array).
\<close>

definition parallel_sample_sort_base :: "nat \<Rightarrow> env \<Rightarrow> str list \<Rightarrow> str list \<Rightarrow> nat \<Rightarrow> str list result" where
  "parallel_sample_sort_base fuel e strings shadow depth =
     then_do (parallel_sample_sort fuel (e\<lparr>e_kind := StringShadowPtr\<rparr>) (root_ptr (length strings)) depth
                \<lparr>arr0 = strings, arr1 = shadow, lcparray = [], cachearr = []\<rparr>)
       (\<lambda>st. Inr (arr0 st))"

definition parallel_sample_sort_out_base :: "nat \<Rightarrow> env \<Rightarrow> str list \<Rightarrow> str list \<Rightarrow> nat \<Rightarrow> str list result" where
  "parallel_sample_sort_out_base fuel e strings output depth =
     then_do (parallel_sample_sort fuel (e\<lparr>e_kind := StringShadowOutPtr\<rparr>) (root_ptr (length strings)) depth
                \<lparr>arr0 = strings, arr1 = output, lcparray = [], cachearr = []\<rparr>)
       (\<lambda>st. Inr (arr1 st))"

definition parallel_sample_sort_lcp_base ::
  "nat \<Rightarrow> env \<Rightarrow> str list \<Rightarrow> str list \<Rightarrow> nat list \<Rightarrow> nat \<Rightarrow> (str list \<times> nat list) result" where
  "parallel_sample_sort_lcp_base fuel e strings shadow lcp depth =
     then_do (parallel_sample_sort fuel (e\<lparr>e_kind := StringShadowLcpPtr\<rparr>) (root_ptr (length strings)) depth
                \<lparr>arr0 = strings, arr1 = shadow, lcparray = lcp, cachearr = []\<rparr>)
       (\<lambda>st. Inr (arr0 st, lcparray st))"

section \<open>Claim about the empty input\<close>

lemma put_Nil [simp]: "put xs off [] = xs"
  by (simp add: put_def)

lemma slice_0 [simp]: "slice xs off 0 = []"
  by (simp add: slice_def)

lemma copy_back_empty:
  "sp_size sp = 0 \<Longrightarrow>
     copy_back k st sp = (st, sp\<lparr>sp_act1 := is_out k, sp_flipped := False\<rparr>)"
  by (simp add: copy_back_def put_output_def sp_active_def)

lemma insertion_sort_empty:
  "sp_size sp = 0 \<Longrightarrow> \<not> sp_flipped sp \<Longrightarrow> insertion_sort k st sp depth = Inr st"
  by (simp add: insertion_sort_def sp_output_def put_output_def Let_def)

text \<open>
  C9, as the source has it. For an empty input nothing in the sorter asserts a length:
  \<^verbatim>\<open>Enqueue\<close> creates a \<^verbatim>\<open>SmallsortJob\<close>, \<^verbatim>\<open>run\<close> calls \<^verbatim>\<open>sort_mkqs_cache\<close>,
  which hands the empty range to the insertion sort. The sort completes and leaves the
  memory as it was.
\<close>

theorem empty_input_completes:
  assumes "0 < e_threadnum e"
  shows "parallel_sample_sort (Suc fuel) e (root_ptr 0) depth st = Inr st"
proof -
  let ?e = "e\<lparr>e_totalsize := sp_size (root_ptr 0), e_CalcLcp := False\<rparr>"
  have thr: "\<not> sequential_threshold (e_ctx ?e) < sp_size (root_ptr 0)"
    by (simp add: root_ptr_def)
  have small: "\<not> g_smallsort_threshold \<le> sp_size (root_ptr 0)"
    by (simp add: root_ptr_def g_smallsort_threshold_def)
  have ins: "sp_size (root_ptr 0) < g_inssort_threshold"
    by (simp add: root_ptr_def g_inssort_threshold_def)
  have "sort_mkqs_cache r ?e (root_ptr 0) depth (st, 0) = Inr (st, 0)" for r
    using ins
    by (simp add: sort_mkqs_cache_def copy_back_empty insertion_sort_empty
        then_do_def root_ptr_def)
  then have "enqueue r ?e (root_ptr 0) depth (st, 0) = Inr (st, 0)" for r
    using thr small by (simp add: enqueue_def)
  then show ?thesis
    by (simp add: parallel_sample_sort_def step_def then_do_def)
qed

theorem empty_input_completes_witness:
  "parallel_sample_sort_lcp_base 1
     \<lparr>e_kind = StringShadowLcpPtr, e_totalsize = 0, e_threadnum = 4, e_CalcLcp = False,
      e_treebits = 13, e_rand = (\<lambda>i. i), e_idle = (\<lambda>i. 0)\<rparr> [] [] [] 0 = Inr ([], [])"
proof -
  let ?e = "\<lparr>e_kind = StringShadowLcpPtr, e_totalsize = 0, e_threadnum = 4, e_CalcLcp = False,
      e_treebits = 13, e_rand = (\<lambda>i. i), e_idle = (\<lambda>i. 0)\<rparr>"
  have h: "0 < e_threadnum (?e\<lparr>e_kind := StringShadowLcpPtr\<rparr>)" by simp
  show ?thesis
    unfolding parallel_sample_sort_lcp_base_def
    using empty_input_completes [OF h, of 0 0]
    by (simp add: then_do_def)
qed

text \<open>
  The claim as stated asks for a fatal assertion on the empty input. Sorting the empty
  string set in place, with one thread, completes with the empty result.
\<close>

theorem empty_input_counterexample:
  "parallel_sample_sort_base 1
     \<lparr>e_kind = StringShadowPtr, e_totalsize = 0, e_threadnum = 1, e_CalcLcp = False,
      e_treebits = 13, e_rand = (\<lambda>i. i), e_idle = (\<lambda>i. 0)\<rparr> [] [] 0 = Inr []
   \<and> parallel_sample_sort_base 1
     \<lparr>e_kind = StringShadowPtr, e_totalsize = 0, e_threadnum = 1, e_CalcLcp = False,
      e_treebits = 13, e_rand = (\<lambda>i. i), e_idle = (\<lambda>i. 0)\<rparr> [] [] 0 \<noteq> Inl AssertionFailed"
  by (simp add: parallel_sample_sort_base_def parallel_sample_sort_def step_def enqueue_def
      sort_mkqs_cache_def copy_back_empty insertion_sort_empty then_do_def root_ptr_def
      sequential_threshold_def e_ctx_def g_smallsort_threshold_def g_inssort_threshold_def)

section \<open>LCP array and the context of \<^verbatim>\<open>parallel_sample_sort\<close>\<close>

text \<open>
  A frame of the sequential sample sort on the four strings a, b, a, b, with one
  splitter, an LCP array holding 42, 9, 9, 9, and the context of
  \<^verbatim>\<open>parallel_sample_sort\<close> (\<open>CalcLcp\<close> is false) or of the NUMA entry points (true).
  Each part of the frame is evaluated on its own.
\<close>


lemma ex4_key_a: "get_uint64 [97] 0 = 0x6100000000000000"
  by code_simp
lemma ex4_key_b: "get_uint64 [98] 0 = 0x6200000000000000"
  by code_simp
lemma ex4_find_bkt_a: "find_bkt [0x6200000000000000] 0x6100000000000000 0 (Suc 0) = 0"
  by (simp add: find_bkt.simps [of _ _ 0 "Suc 0"] find_bkt.simps [of _ _ 0 0])
lemma ex4_find_bkt_b: "find_bkt [0x6200000000000000] 0x6200000000000000 0 (Suc 0) = Suc 0"
  by (simp add: find_bkt.simps [of _ _ 0 "Suc 0"])
lemma numsplitters_1: "numsplitters (Suc 0) = 1" by (simp add: numsplitters_def)

definition ex4_env :: "bool \<Rightarrow> env" where
  "ex4_env c = \<lparr>e_kind = StringShadowLcpPtr, e_totalsize = 4, e_threadnum = 1, e_CalcLcp = c,
          e_treebits = 1, e_rand = (\<lambda>i. i), e_idle = (\<lambda>i. 3)\<rparr>"

lemma ex4_samples: "draw_samples (ex4_env c) 0 [[97], [98], [97], [98]] 0 = [0x6100000000000000, 0x6200000000000000]"
  by (simp add: ex4_env_def draw_samples_def numsplitters_1 ex4_key_a ex4_key_b upt_rec)


definition ex4_step :: sstep where
  "ex4_step = \<lparr>ss_strptr = root_ptr 4, ss_depth = 0, ss_numsplitters = 1, ss_splitter = [0x6200000000000000],
           ss_splitter_lcp = [0x80, 0], ss_bkt = [0, 2, 4, 4]\<rparr>"

definition ex4_store :: "str list \<Rightarrow> str list \<Rightarrow> nat list \<Rightarrow> store" where
  "ex4_store a b l = \<lparr>arr0 = a, arr1 = b, lcparray = l, cachearr = []\<rparr>"

lemma ex4_treebits: "e_treebits (ex4_env c) = Suc 0" by (simp add: ex4_env_def)

lemma ex4_splitters: "build_splitters (Suc 0) [0x6100000000000000, 0x6200000000000000] = [0x6200000000000000]"
  by (simp add: build_splitters_def numsplitters_1)

lemma ex4_splitter_lcp: "build_splitter_lcp [0x6200000000000000] = [0x80, 0]"
  by (simp add: build_splitter_lcp_def lcp_byte_def)

lemma ex4_classify: "classify (Suc 0) [0x6200000000000000] [[97], [98], [97], [98]] 0 = [0, 1, 0, 1]"
  by (simp add: classify_def numsplitters_1 ex4_key_a ex4_key_b ex4_find_bkt_a ex4_find_bkt_b)

lemma ex4_count: "count_bkts 3 [0, 1, 0, 1] = [2, 2, 0]"
  by (simp add: count_bkts_def numeral_3_eq_3)

lemma ex4_permute: "permute [[97], [98], [97], [98]] [0, 1, 0, 1] ([2, 4, 4, 4], [[], [], [], []]) = ([0, 2, 4, 4], [[97], [97], [98], [98]])"
  by (simp add: Let_def)

lemma ex4_sides: "sp_active (ex4_store [[97], [98], [97], [98]] [[], [], [], []] l) (root_ptr 4) = [[97], [98], [97], [98]]"
  "sp_shadow (ex4_store [[97], [98], [97], [98]] [[], [], [], []] l) (root_ptr 4) = [[], [], [], []]"
  "put_shadow (ex4_store [[97], [98], [97], [98]] [[], [], [], []] l) (root_ptr 4) [[97], [97], [98], [98]]
     = ex4_store [[97], [98], [97], [98]] [[97], [97], [98], [98]] l"
  by (simp_all add: sp_active_def sp_shadow_def put_shadow_def put_def root_ptr_def ex4_store_def slice_def)

lemma ex4_SeqSampleSortStep: "SeqSampleSortStep (ex4_env c) (root_ptr 4) 0
     (ex4_store [[97], [98], [97], [98]] [[], [], [], []] l, 0)
  = (ex4_step, (ex4_store [[97], [98], [97], [98]] [[97], [97], [98], [98]] l, 2))"
proof -
  have n: "2 * numsplitters (Suc 0) + 1 = 3" "sp_size (root_ptr 4) = 4"
    by (simp_all add: numsplitters_1 root_ptr_def)
  have ps: "prefix_sum 0 [2, 2, 0] @ [4] = [2, 4, 4, 4]" by simp
  show ?thesis
    unfolding SeqSampleSortStep_def ex4_treebits
    by (simp only: prod.case Let_def ex4_sides ex4_samples ex4_splitters ex4_splitter_lcp ex4_classify n ex4_count ps ex4_permute) (simp add: ex4_step_def numsplitters_1)
qed


lemma ex4_insertion_sort: "insertion_sort StringShadowLcpPtr (ex4_store [[97], [97], [97], [98]] [[97], [97], [98], [98]] [42, 9, 9, 9])
     \<lparr>sp_off = 0, sp_size = 2, sp_act1 = False, sp_flipped = False\<rparr> 0
   = Inr (ex4_store [[97], [97], [97], [98]] [[97], [97], [98], [98]] [42, 1, 9, 9])"
  by (simp add: insertion_sort_def sp_output_def slice_def put_output_def put_def ex4_store_def
      str_content_def set_lcp_def set_cache_def lcp_from_def str_at_def upt_rec Let_def)

lemma ex4_copy_back: "copy_back StringShadowLcpPtr (ex4_store [[97], [98], [97], [98]] [[97], [97], [98], [98]] [42, 9, 9, 9])
      (flip (root_ptr 4) 0 2)
   = (ex4_store [[97], [97], [97], [98]] [[97], [97], [98], [98]] [42, 9, 9, 9],
      \<lparr>sp_off = 0, sp_size = 2, sp_act1 = False, sp_flipped = False\<rparr>)"
  by (simp add: copy_back_def flip_def root_ptr_def put_output_def sp_active_def slice_def put_def ex4_store_def)

lemma ex4_bucket0: "seq_bucket r (ex4_env c) 3 ex4_step 0
     (ex4_store [[97], [98], [97], [98]] [[97], [97], [98], [98]] [42, 9, 9, 9], 3)
   = Inr (ex4_store [[97], [97], [97], [98]] [[97], [97], [98], [98]] [42, 1, 9, 9], 3)"
proof -
  have k: "e_kind (ex4_env c) = StringShadowLcpPtr" by (simp add: ex4_env_def)
  have sz: "sub_size_t (ss_bkt ex4_step ! (0 + 1)) (ss_bkt ex4_step ! 0) = 2"
    "ss_bkt ex4_step ! 0 = 0" "ss_strptr ex4_step = root_ptr 4"
    "ss_depth ex4_step + unat (ss_splitter_lcp ex4_step ! (0 div 2) AND 0x7F) = 0"
    by (simp_all add: ex4_step_def sub_size_t_def)
  have "sort_mkqs_cache r (ex4_env c) (flip (root_ptr 4) 0 2) 0
     (ex4_store [[97], [98], [97], [98]] [[97], [97], [98], [98]] [42, 9, 9, 9], 3)
   = Inr (ex4_store [[97], [97], [97], [98]] [[97], [97], [98], [98]] [42, 1, 9, 9], 3)"
    unfolding sort_mkqs_cache_def k
    by (simp add: ex4_copy_back ex4_insertion_sort then_do_def g_inssort_threshold_def)
  then show ?thesis
    unfolding seq_bucket_def
    by (simp add: sz g_smallsort_threshold_def ex4_step_def sub_size_t_def)
qed


lemma ex4_bucket1: "seq_bucket r (ex4_env False) 3 ex4_step (Suc 0)
     (ex4_store [[97], [97], [97], [98]] [[97], [97], [98], [98]] [42, Suc 0, 9, 9], 3)
   = Inr (ex4_store [[97], [97], [98], [98]] [[97], [97], [98], [98]] [42, Suc 0, 9, 9], 3)"
  unfolding seq_bucket_def
  by (simp add: ex4_step_def sub_size_t_def seq_done_bucket_def copy_back_def flip_def root_ptr_def
      put_output_def sp_active_def slice_def put_def ex4_store_def ex4_env_def)

lemma ex4_bucket2: "seq_bucket r (ex4_env c) 3 ex4_step 2 w = Inr w"
  unfolding seq_bucket_def
  by (simp add: ex4_step_def sub_size_t_def numeral_2_eq_2)

lemma ex4_seq_frame: "seq_frame r (ex4_env False) (root_ptr 4) 0
     (ex4_store [[97], [98], [97], [98]] [[], [], [], []] [42, 9, 9, 9], 0)
   = Inr (ex4_store [[97], [97], [98], [98]] [[97], [97], [98], [98]] [42, 1, 9, 9], 3)"
proof -
  have bn: "[0..<bktnum ex4_step] = [0, Suc 0, 2]"
    by (simp add: bktnum_def ex4_step_def upt_rec)
  have idle: "e_idle (ex4_env False) 2 = 3" "\<not> e_CalcLcp (ex4_env False)" by (simp_all add: ex4_env_def)
  show ?thesis
    unfolding seq_frame_def ex4_SeqSampleSortStep
    by (simp add: idle bn run_all_def ex4_bucket0 ex4_bucket1 ex4_bucket2 then_do_def step_calculate_lcp_def)
qed



text \<open>
  C3. \<^verbatim>\<open>parallel_sample_sort\<close>, which every LCP entry point except the NUMA ones goes
  through, fixes \<^verbatim>\<open>Context<false>\<close>. With it the LCP pass of a sample sort step
  (\<^verbatim>\<open>if (Context::CalcLcp) sample_sort_lcp(...)\<close>) and the fill of a finished equal
  bucket in \<^verbatim>\<open>sort_sample_sort\<close> do not run. Here a frame of the sequential sample sort
  (which \<^verbatim>\<open>SmallsortJob::run\<close> starts from 1048576 strings on) is run on the four
  strings a, b, a, b with an LCP array holding 42, 9, 9, 9: the strings come out sorted,
  a, a, b, b, but the LCP array ends as 42, 1, 9, 9, where the LCPs of neighbours are
  1, 0, 1.
\<close>

theorem sample_sort_frame_lcp_skipped:
  "run 2 \<lparr>e_kind = StringShadowLcpPtr, e_totalsize = 4, e_threadnum = 1, e_CalcLcp = False,
          e_treebits = 1, e_rand = (\<lambda>i. i), e_idle = (\<lambda>i. 3)\<rparr>
     (SeqFrame (root_ptr 4) 0)
     (\<lparr>arr0 = [[97], [98], [97], [98]], arr1 = [[], [], [], []],
       lcparray = [42, 9, 9, 9], cachearr = []\<rparr>, 0)
   = Inr (\<lparr>arr0 = [[97], [97], [98], [98]], arr1 = [[97], [97], [98], [98]],
           lcparray = [42, 1, 9, 9], cachearr = []\<rparr>, 3)"
proof -
  have "run 2 (ex4_env False) (SeqFrame (root_ptr 4) 0)
      (ex4_store [[97], [98], [97], [98]] [[], [], [], []] [42, 9, 9, 9], 0)
    = seq_frame (run 1 (ex4_env False)) (ex4_env False) (root_ptr 4) 0
      (ex4_store [[97], [98], [97], [98]] [[], [], [], []] [42, 9, 9, 9], 0)"
    by (simp add: numeral_2_eq_2 step_def)
  then show ?thesis
    unfolding ex4_seq_frame by (simp add: ex4_env_def ex4_store_def)
qed

end
